theory Spec2Isabelle
  imports Main "HOL-Library.Word"
begin

unbundle bit_operations_syntax

section \<open>Data model of lsyncd.c\<close>

text \<open>
  \<^verbatim>\<open>struct dir_watch\<close>: the kernel's watch descriptor, the directory's name, the
  name used on the destination side (\<open>None\<close> is the C \<open>NULL\<close>) and the index of the
  parent (\<open>-1\<close> when there is none). A slot whose \<open>wd\<close> is negative is unused.
\<close>

record dir_watch =
  wd :: int
  dirname :: "string option"
  destname :: "string option"
  parent :: int

text \<open>
  What the daemon does to the outside world, in the order it does it: the calls of
  \<^verbatim>\<open>printlogf\<close> (level, format string, arguments), the inotify system calls,
  \<^verbatim>\<open>opendir\<close>, and the \<^verbatim>\<open>fork\<close>/\<^verbatim>\<open>execv\<close> of the rsync binary
  with its argument vector (\<open>None\<close> is the terminating \<open>NULL\<close>).
\<close>

datatype logarg = S "string option" | I int

datatype effect =
    Printlogf nat string "logarg list"
  | Inotify_add_watch string
  | Inotify_rm_watch int
  | Opendir string
  | Fork_execv string "string option list"

definition LOG_DEBUG :: nat where "LOG_DEBUG = 1"
definition LOG_NORMAL :: nat where "LOG_NORMAL = 2"
definition LOG_ERROR :: nat where "LOG_ERROR = 3"

text \<open>
  The global variables the watch table lives in. \<open>dir_watches\<close> holds the slots
  \<open>0 .. dir_watch_num - 1\<close> of the allocated array (the slots beyond are never read),
  so \<open>dir_watch_num\<close> is its length; \<open>dir_watch_size\<close> is the allocated size.
  C \<open>int\<close>s are modelled as unbounded integers: the table would need \<open>2^30\<close> entries
  before \<open>dir_watch_size *= 2\<close> overflows.
\<close>

record lsyncd =
  dir_watches :: "dir_watch list"
  dir_watch_size :: int
  keep_going :: bool
  effects :: "effect list"

definition dir_watch_num :: "lsyncd \<Rightarrow> int" where
  "dir_watch_num s = int (length (dir_watches s))"

definition emit :: "effect \<Rightarrow> lsyncd \<Rightarrow> lsyncd" where
  "emit e s = s\<lparr>effects := effects s @ [e]\<rparr>"

text \<open>The options set from the command line, and the exclude list read at startup.\<close>

record config =
  flag_dryrun :: bool
  rsync_binary :: string
  exclude_file :: "string option"
  option_target :: string
  exclude_dirs :: "string list"

text \<open>
  The answers of the operating system: the descriptor \<^verbatim>\<open>inotify_add_watch\<close> returns
  for a path (\<open>-1\<close> on error), the entries \<^verbatim>\<open>readdir\<close> lists for a path (name, and
  whether \<open>d_type\<close> is \<open>DT_DIR\<close>; \<open>None\<close> when \<^verbatim>\<open>opendir\<close> fails), and the wait
  status of the child that was given an argument vector.
\<close>

datatype wstatus = Exited nat | Signaled

record world =
  kernel_add_watch :: "string \<Rightarrow> int"
  dir_entries :: "string \<Rightarrow> (string \<times> bool) list option"
  child_status :: "string option list \<Rightarrow> wstatus"

text \<open>
  How a call ends: it returns a value, the process exits with a code, or the C program
  has no defined behaviour (a failed \<^verbatim>\<open>assert\<close>, a \<open>NULL\<close> handed to
  \<^verbatim>\<open>strlen\<close>, an index outside the table, a \<^verbatim>\<open>strcat\<close> past the buffer).
\<close>

datatype fault = Assert_fail | Null_deref | Out_of_bounds | Buffer_overflow

datatype 'a outcome = Ret 'a lsyncd | Exit int lsyncd | Fault fault lsyncd

definition LSYNCD_FILENOTFOUND :: int where "LSYNCD_FILENOTFOUND = 2"
definition LSYNCD_EXECRSYNCFAIL :: int where "LSYNCD_EXECRSYNCFAIL = 3"
definition LSYNCD_TOOMANYDIRECTORYEXCLUDES :: int where "LSYNCD_TOOMANYDIRECTORYEXCLUDES = 5"
definition LSYNCD_INTERNALFAIL :: nat where "LSYNCD_INTERNALFAIL = 255"

section \<open>rsync: the call of the external binary\<close>

definition MAX_ARGS :: nat where "MAX_ARGS = 100"

text \<open>
  \<^verbatim>\<open>argv[argc++] = ...\<close>: the vector is built by appending, \<open>argc\<close> is its length.
\<close>

definition rsync_argv :: "config \<Rightarrow> string \<Rightarrow> string \<Rightarrow> bool \<Rightarrow> string option list" where
  "rsync_argv cfg src dest recursive =
     (let opts = (if recursive then ''-ltr'' else ''-ltd'');
          argv = [];
          argv = argv @ [Some (rsync_binary cfg)];
          argv = argv @ [Some ''--delete''];
          argv = argv @ [Some opts];
          argv = (case exclude_file cfg of
                    Some f \<Rightarrow> (argv @ [Some ''--exclude-from'']) @ [Some f]
                  | None \<Rightarrow> argv);
          argv = argv @ [Some src];
          argv = argv @ [Some dest];
          argv = argv @ [None]
      in argv)"

fun dump_argv :: "nat \<Rightarrow> string option list \<Rightarrow> lsyncd \<Rightarrow> lsyncd" where
  "dump_argv i [] s = s"
| "dump_argv i (a # as) s =
     dump_argv (Suc i) as (emit (Printlogf LOG_DEBUG ''exec parameter %i:%s'' [I (int i), S a]) s)"

definition rsync :: "config \<Rightarrow> world \<Rightarrow> string \<Rightarrow> string \<Rightarrow> bool \<Rightarrow> lsyncd \<Rightarrow> bool outcome" where
  "rsync cfg w src dest recursive s =
     (let argv = rsync_argv cfg src dest recursive;
          argc = length argv
      in if argc > MAX_ARGS then
           Ret False (emit (Printlogf LOG_ERROR ''Internal error: too many (%i) options passed''
                              [I (int argc)]) s)
         else
           let s1 = dump_argv 0 argv s
           in if flag_dryrun cfg then Ret True s1
              else
                let s2 = emit (Fork_execv (rsync_binary cfg) argv) s1
                in (case child_status w argv of
                      Signaled \<Rightarrow> Fault Assert_fail s2
                    | Exited status \<Rightarrow>
                        if status = LSYNCD_INTERNALFAIL then
                          Ret False (emit (Printlogf LOG_ERROR ''Fork exit code of %i, execv failure''
                                             [I (int status)]) s2)
                        else if status \<noteq> 0 then
                          Ret False (emit (Printlogf LOG_NORMAL
                                             ''Forked rsync process returned non-zero return code: %i''
                                             [I (int status)]) s2)
                        else
                          Ret True (emit (Printlogf LOG_DEBUG ''Rsync of [%s] -> [%s] finished''
                                            [S (Some src), S (Some dest)]) s2)))"

text \<open>
  The value a call returned, the code the process exited with, the state a call ended in,
  and the children a run spawned.
\<close>

fun returned :: "'a outcome \<Rightarrow> 'a option" where
  "returned (Ret v s) = Some v"
| "returned (Exit c s) = None"
| "returned (Fault f s) = None"

fun exit_code :: "'a outcome \<Rightarrow> int option" where
  "exit_code (Exit c s) = Some c"
| "exit_code (Ret v s) = None"
| "exit_code (Fault x s) = None"

fun final :: "'a outcome \<Rightarrow> lsyncd" where
  "final (Ret v s) = s"
| "final (Exit c s) = s"
| "final (Fault f s) = s"

fun is_exec :: "effect \<Rightarrow> bool" where
  "is_exec (Fork_execv b a) = True"
| "is_exec e = False"

definition execs :: "lsyncd \<Rightarrow> effect list" where
  "execs s = filter is_exec (effects s)"

section \<open>add_watch: insertion into the watch table\<close>

text \<open>
  \<^verbatim>\<open>for (newdw = 0; newdw < dir_watch_num; newdw++) if (dir_watches[newdw].wd < 0) break;\<close>
\<close>

fun unused_slot :: "dir_watch list \<Rightarrow> nat" where
  "unused_slot [] = 0"
| "unused_slot (x # xs) = (if wd x < 0 then 0 else Suc (unused_slot xs))"

definition add_watch ::
  "world \<Rightarrow> string \<Rightarrow> string \<Rightarrow> string option \<Rightarrow> int \<Rightarrow> lsyncd \<Rightarrow> int \<times> lsyncd" where
  "add_watch w pathname dn dest par s =
     (let k = kernel_add_watch w pathname;
          s0 = emit (Inotify_add_watch pathname) s
      in if k = -1 then
           (-1, emit (Printlogf LOG_ERROR ''Cannot add watch %s (%d:%s)'' [S (Some pathname)]) s0)
         else
           let newdw = unused_slot (dir_watches s0);
               node = \<lparr>wd = k, dirname = Some dn, destname = dest, parent = par\<rparr>;
               s1 = (if newdw = length (dir_watches s0) then
                       s0\<lparr>dir_watch_size :=
                            (if dir_watch_num s0 + 1 \<ge> dir_watch_size s0
                             then dir_watch_size s0 * 2 else dir_watch_size s0),
                          dir_watches := dir_watches s0 @ [node]\<rparr>
                     else s0)
           in (int newdw, s1\<lparr>dir_watches := (dir_watches s1)[newdw := node]\<rparr>))"

section \<open>parse_exclude_file: the directory excludes\<close>

text \<open>
  \<open>PATH_MAX\<close> is the constant of \<^verbatim>\<open>limits.h\<close>; on Linux it is 4096.
\<close>

definition PATH_MAX :: nat where "PATH_MAX = 4096"

definition MAX_EXCLUDES :: nat where "MAX_EXCLUDES = 256"

text \<open>
  \<^verbatim>\<open>fgets(line, n + 1, ef)\<close> on the rest of the file: it takes at most \<open>n\<close>
  characters and stops after a newline. The result is the line and what is left.
\<close>

fun fgets :: "nat \<Rightarrow> string \<Rightarrow> string \<times> string" where
  "fgets 0 cs = ([], cs)"
| "fgets (Suc n) [] = ([], [])"
| "fgets (Suc n) (c # cs) =
     (if c = CHR 0x0A then ([c], cs)
      else (case fgets n cs of (l, r) \<Rightarrow> (c # l, r)))"

lemma fgets_shortens: "length (snd (fgets (Suc n) (c # cs))) < length (c # cs)"
proof -
  have "length (snd (fgets n cs)) \<le> length cs" for n cs
    by (induction n cs rule: fgets.induct) (auto split: prod.splits)
  from this [of n cs] show ?thesis by (auto split: prod.splits)
qed

text \<open>The C string held by a buffer ends at the first NUL.\<close>

definition c_string :: "string \<Rightarrow> string" where
  "c_string l = takeWhile (\<lambda>c. c \<noteq> CHR 0x00) l"

lemma fgets_line_shortens:
  "content \<noteq> [] \<Longrightarrow> length (snd (fgets PATH_MAX content)) < length content"
proof -
  assume "content \<noteq> []"
  then obtain c cs where "content = c # cs" by (cases content) auto
  then show ?thesis using fgets_shortens [of 4095 c cs] by (simp add: PATH_MAX_def)
qed

text \<open>
  The loop of \<open>parse_exclude_file\<close> over the rest of the file. \<open>read_error\<close> says
  whether the read that finds no more data fails with an error instead of end-of-file.
  \<open>dirs\<close> is \<open>exclude_dirs\<close>, and \<open>exclude_dir_n\<close> its length. The result is the
  exit code (\<open>Inl\<close>) or the final \<open>exclude_dirs\<close>.
\<close>

function parse_exclude_lines :: "string \<Rightarrow> bool \<Rightarrow> string list \<Rightarrow> int + string list" where
  "parse_exclude_lines content read_error dirs =
     (if content = [] then
        (if read_error then Inl LSYNCD_FILENOTFOUND else Inr dirs)
      else
        let rest = snd (fgets PATH_MAX content);
            line = c_string (fst (fgets PATH_MAX content));
            sl = length line
        in if sl = 0 then parse_exclude_lines rest read_error dirs
           else
             let line = (if last line = CHR 0x0A then butlast line else line);
                 sl = length line
             in if sl = 0 then parse_exclude_lines rest read_error dirs
                else if last line = CHR ''/'' then
                  (if int (length dirs) + 1 \<ge> int MAX_EXCLUDES then
                     Inl LSYNCD_TOOMANYDIRECTORYEXCLUDES
                   else
                     let line = butlast line;
                         sl = length line
                     in if sl = 0 then parse_exclude_lines rest read_error dirs
                        else parse_exclude_lines rest read_error (dirs @ [line]))
                else parse_exclude_lines rest read_error dirs)"
  by pat_completeness auto
termination
  by (relation "measure (\<lambda>(content, read_error, dirs). length content)")
     (simp_all add: fgets_line_shortens)

declare parse_exclude_lines.simps [simp del]

text \<open>
  \<open>parse_exclude_file\<close>: \<open>None\<close> is a file that \<^verbatim>\<open>fopen\<close> cannot open. The
  excludes start empty, as the global array does.
\<close>

definition parse_exclude_file :: "(string \<times> bool) option \<Rightarrow> int + string list" where
  "parse_exclude_file file =
     (case file of
        None \<Rightarrow> Inl LSYNCD_FILENOTFOUND
      | Some (content, read_error) \<Rightarrow> parse_exclude_lines content read_error [])"

section \<open>buildpath: the path of a watched directory\<close>

text \<open>
  Several calls of one function run one after the other: the next one runs on the state
  the previous one returned, and an exit or a fault ends the sequence. \<open>None\<close> is a
  call that has not returned within the recursion depth it was given.
\<close>

fun bind_outcome ::
  "'a outcome option \<Rightarrow> ('a \<Rightarrow> lsyncd \<Rightarrow> 'b outcome option) \<Rightarrow> 'b outcome option" where
  "bind_outcome None k = None"
| "bind_outcome (Some (Ret v s)) k = k v s"
| "bind_outcome (Some (Exit c s)) k = Some (Exit c s)"
| "bind_outcome (Some (Fault x s)) k = Some (Fault x s)"

lemma bind_outcome_cong [fundef_cong]:
  "m = m' \<Longrightarrow> (\<And>v s. m' = Some (Ret v s) \<Longrightarrow> k v s = k' v s) \<Longrightarrow>
   bind_outcome m k = bind_outcome m' k'"
proof (cases m')
  case None
  then show "m = m' \<Longrightarrow> bind_outcome m k = bind_outcome m' k'" by simp
next
  case (Some a)
  then show "m = m' \<Longrightarrow> (\<And>v s. m' = Some (Ret v s) \<Longrightarrow> k v s = k' v s) \<Longrightarrow>
      bind_outcome m k = bind_outcome m' k'"
    by (cases a) simp_all
qed

text \<open>
  \<^verbatim>\<open>for (p = watch, ps = 0; p != -1; p = dir_watches[p].parent, ps++) {}\<close>
  The loop runs for ever when the parent links form a cycle, so it is given a number of
  steps it may take. An index outside the table is a fault.
\<close>

fun count_parents :: "nat \<Rightarrow> dir_watch list \<Rightarrow> int \<Rightarrow> nat \<Rightarrow> (fault + nat) option" where
  "count_parents 0 ws p ps = None"
| "count_parents (Suc fuel) ws p ps =
     (if p = -1 then Some (Inr ps)
      else if p < 0 \<or> p \<ge> int (length ws) then Some (Inl Out_of_bounds)
      else count_parents fuel ws (parent (ws ! nat p)) (Suc ps))"

text \<open>
  \<^verbatim>\<open>for (p = watch, k = 0; k + 1 < j; p = dir_watches[p].parent, k++) {}\<close>
  with \<open>n = j - 1\<close> steps. It visits only slots the counting loop has visited.
\<close>

fun nth_parent :: "dir_watch list \<Rightarrow> int \<Rightarrow> nat \<Rightarrow> int" where
  "nth_parent ws p 0 = p"
| "nth_parent ws p (Suc n) = nth_parent ws (parent (ws ! nat p)) n"

text \<open>
  \<^verbatim>\<open>for (j = ps; j > 0; j--)\<close>: the names from the root down to \<open>watch\<close>, each
  followed by a slash. \<open>pre\<close> says whether \<open>prefix\<close> is not \<open>NULL\<close>;
  \<open>tmpname\<close> is \<^verbatim>\<open>(prefix && destname) ? destname : dirname\<close> of a slot.
\<close>

definition tmpname :: "bool \<Rightarrow> dir_watch \<Rightarrow> string option" where
  "tmpname pre x = (if pre \<and> destname x \<noteq> None then destname x else dirname x)"

fun add_segments ::
  "dir_watch list \<Rightarrow> int \<Rightarrow> bool \<Rightarrow> nat \<Rightarrow> nat \<Rightarrow> string \<Rightarrow> lsyncd \<Rightarrow> (bool \<times> string) outcome" where
  "add_segments ws watch pre pathsize 0 pathname s = Ret (True, pathname) s"
| "add_segments ws watch pre pathsize (Suc j) pathname s =
     (case tmpname pre (ws ! nat (nth_parent ws watch j)) of
        None \<Rightarrow> Fault Null_deref s
      | Some t \<Rightarrow>
          if length pathname + length t + 2 \<ge> pathsize then
            Ret (False, pathname) (emit (Printlogf LOG_ERROR ''path too long %s/...'' [S (Some t)]) s)
          else add_segments ws watch pre pathsize j ((pathname @ t) @ ''/'') s)"

text \<open>
  The start of \<open>buildpath\<close>: \<^verbatim>\<open>pathname[0] = 0\<close>, and for a prefix the
  \<^verbatim>\<open>assert\<close> and the \<^verbatim>\<open>strcat\<close>. The \<^verbatim>\<open>strcat\<close> of the prefix is not
  preceded by a test of the length: it is a fault when the prefix and its terminating NUL
  do not fit into \<open>pathsize\<close> bytes.
\<close>

definition add_prefix :: "nat \<Rightarrow> string option \<Rightarrow> fault + string" where
  "add_prefix pathsize prefix =
     (let pathname = []
      in case prefix of
           None \<Rightarrow> Inr pathname
         | Some pre \<Rightarrow>
             if pre = ''%wwwuser'' then Inl Assert_fail
             else if length pathname + length pre + 1 > pathsize then Inl Buffer_overflow
             else Inr (pathname @ pre))"

text \<open>
  The end of \<open>buildpath\<close>, after the loop over the parents returned \<open>r\<close>:
  \<^verbatim>\<open>if (dirname) { ... strcat(pathname, dirname); } return true;\<close>
\<close>

definition add_dirname ::
  "nat \<Rightarrow> string option \<Rightarrow> bool \<times> string \<Rightarrow> lsyncd \<Rightarrow> (bool \<times> string) outcome option" where
  "add_dirname pathsize dn r s =
     (if \<not> fst r then Some (Ret r s)
      else (case dn of
              None \<Rightarrow> Some (Ret (True, snd r) s)
            | Some d \<Rightarrow>
                if length (snd r) + length d + 2 \<ge> pathsize then
                  Some (Ret (False, snd r)
                          (emit (Printlogf LOG_ERROR ''path too long %s//%s''
                                   [S (Some (snd r)), S (Some d)]) s))
                else Some (Ret (True, snd r @ d) s)))"

text \<open>
  \<open>buildpath\<close> returns whether it succeeded, and what the buffer \<open>pathname\<close> holds.
\<close>

definition buildpath ::
  "nat \<Rightarrow> nat \<Rightarrow> int \<Rightarrow> string option \<Rightarrow> string option \<Rightarrow> lsyncd \<Rightarrow> (bool \<times> string) outcome option" where
  "buildpath fuel pathsize watch dn prefix s =
     (case add_prefix pathsize prefix of
        Inl x \<Rightarrow> Some (Fault x s)
      | Inr pathname \<Rightarrow>
          (case count_parents fuel (dir_watches s) watch 0 of
             None \<Rightarrow> None
           | Some (Inl x) \<Rightarrow> Some (Fault x s)
           | Some (Inr ps) \<Rightarrow>
               bind_outcome
                 (Some (add_segments (dir_watches s) watch (prefix \<noteq> None) pathsize ps pathname s))
                 (add_dirname pathsize dn)))"

section \<open>add_dirwatch: watching a directory and its subdirectories\<close>

text \<open>
  The name of a watched directory as the log shows it; the table is read only for an
  index inside it.
\<close>

definition dirname_at :: "lsyncd \<Rightarrow> int \<Rightarrow> string option" where
  "dirname_at s i =
     (if 0 \<le> i \<and> i < dir_watch_num s then dirname (dir_watches s ! nat i) else None)"

text \<open>
  \<open>add_dirwatch\<close> calls itself for the subdirectories, to a depth the file system
  decides; \<open>fuel\<close> bounds the depth. \<open>add_dirwatch_entries\<close> is its
  \<^verbatim>\<open>while (keep_going)\<close> loop over the entries \<^verbatim>\<open>readdir\<close> has left.
\<close>

fun add_dirwatch ::
  "nat \<Rightarrow> config \<Rightarrow> world \<Rightarrow> string \<Rightarrow> string option \<Rightarrow> bool \<Rightarrow> int \<Rightarrow> lsyncd \<Rightarrow> bool outcome option"
and add_dirwatch_entries ::
  "nat \<Rightarrow> config \<Rightarrow> world \<Rightarrow> (string \<times> bool) list \<Rightarrow> int \<Rightarrow> lsyncd \<Rightarrow> unit outcome option" where
  "add_dirwatch 0 cfg w dn dest recursive par s = None"
| "add_dirwatch (Suc fuel) cfg w dn dest recursive par s =
     bind_outcome
       (buildpath (Suc fuel) (PATH_MAX + 1) par (Some dn) None
          (emit (Printlogf LOG_DEBUG ''add_dirwatch(%s, %s, %d, p->dirname:%s)''
                   [S (Some dn), S dest, I (if recursive then 1 else 0),
                    S (if par \<ge> 0 then dirname_at s par else Some ''NULL'')]) s))
       (\<lambda>r s1.
          if \<not> fst r then Some (Ret False s1)
          else if dn \<in> set (exclude_dirs cfg) then Some (Ret True s1)
          else
            (case add_watch w (snd r) dn dest par s1 of
               (dw, s2) \<Rightarrow>
                 if dw = -1 then Some (Ret False s2)
                 else if length (snd r) + length dn + 2 > PATH_MAX + 1 then
                   Some (Ret False (emit (Printlogf LOG_ERROR ''pathname too long %s//%s''
                                            [S (Some (snd r)), S (Some dn)]) s2))
                 else
                   (case dir_entries w (snd r) of
                      None \<Rightarrow>
                        Some (Ret False (emit (Printlogf LOG_ERROR ''cannot open dir %s.''
                                                 [S (Some dn)]) (emit (Opendir (snd r)) s2)))
                    | Some des \<Rightarrow>
                        bind_outcome
                          (add_dirwatch_entries fuel cfg w des dw (emit (Opendir (snd r)) s2))
                          (\<lambda>u s4. Some (Ret True s4)))))"
| "add_dirwatch_entries fuel cfg w [] dw s = Some (Ret () s)"
| "add_dirwatch_entries fuel cfg w (de # des) dw s =
     (if \<not> keep_going s then Some (Ret () s)
      else if snd de \<and> fst de \<noteq> ''..'' \<and> fst de \<noteq> ''.'' then
        bind_outcome (add_dirwatch fuel cfg w (fst de) None True dw s)
          (\<lambda>b s1. add_dirwatch_entries fuel cfg w des dw s1)
      else add_dirwatch_entries fuel cfg w des dw s)"

section \<open>remove_dirwatch: removing a directory and its subdirectories\<close>

text \<open>
  The search for the child of \<open>par\<close> called \<open>name\<close>, from slot \<open>i\<close> on: the index
  found, or the number of slots when there is none. \<^verbatim>\<open>strcmp\<close> reads the name of a
  used slot; a \<open>NULL\<close> there is a fault.
\<close>

fun child_index :: "string \<Rightarrow> int \<Rightarrow> dir_watch list \<Rightarrow> nat \<Rightarrow> fault + nat" where
  "child_index name par [] i = Inr i"
| "child_index name par (x # xs) i =
     (if wd x \<ge> 0 \<and> parent x = par then
        (case dirname x of
           None \<Rightarrow> Inl Null_deref
         | Some d \<Rightarrow> if name = d then Inr i else child_index name par xs (Suc i))
      else child_index name par xs (Suc i))"

text \<open>
  \<^verbatim>\<open>inotify_rm_watch(inotf, dir_watches[dw].wd); dir_watches[dw].wd = -1;\<close> and the
  release of the two names, which leaves \<open>NULL\<close> in their place.
\<close>

definition release_slot :: "nat \<Rightarrow> lsyncd \<Rightarrow> lsyncd" where
  "release_slot dw s =
     (let s1 = emit (Inotify_rm_watch (wd (dir_watches s ! dw))) s
      in s1\<lparr>dir_watches :=
              (dir_watches s1)[dw := (dir_watches s1 ! dw)\<lparr>wd := -1, dirname := None, destname := None\<rparr>]\<rparr>)"

text \<open>
  \<open>remove_dirwatch\<close> calls itself for the used slots whose parent is \<open>dw\<close>, so its
  depth is that of the subtree (and it never returns when the parent links form a cycle);
  \<open>fuel\<close> bounds the depth. \<open>remove_children\<close> is the loop over the slots.
\<close>

fun remove_dirwatch :: "nat \<Rightarrow> string option \<Rightarrow> int \<Rightarrow> lsyncd \<Rightarrow> bool outcome option"
and remove_children :: "nat \<Rightarrow> nat list \<Rightarrow> int \<Rightarrow> lsyncd \<Rightarrow> unit outcome option" where
  "remove_dirwatch 0 name par s = None"
| "remove_dirwatch (Suc fuel) name par s =
     (case (case name of
              None \<Rightarrow> Inr par
            | Some n \<Rightarrow>
                (case child_index n par (dir_watches s) 0 of
                   Inl x \<Rightarrow> Inl (Fault x s)
                 | Inr i \<Rightarrow>
                     if int i \<ge> dir_watch_num s then
                       Inl (Ret False (emit (Printlogf LOG_ERROR ''Cannot find entry for %s:/:%s :-(''
                                               [S (dirname_at s par), S (Some n)]) s))
                     else Inr (int i))) of
        Inl r \<Rightarrow> Some r
      | Inr dw \<Rightarrow>
          bind_outcome (remove_children fuel [0 ..< length (dir_watches s)] dw s)
            (\<lambda>u s1.
               if dw < 0 \<or> dw \<ge> dir_watch_num s1 then Some (Fault Out_of_bounds s1)
               else Some (Ret True (release_slot (nat dw) s1))))"
| "remove_children fuel [] dw s = Some (Ret () s)"
| "remove_children fuel (i # is) dw s =
     (if wd (dir_watches s ! i) \<ge> 0 \<and> parent (dir_watches s ! i) = dw then
        bind_outcome (remove_dirwatch fuel None (int i) s)
          (\<lambda>b s1. remove_children fuel is dw s1)
      else remove_children fuel is dw s)"

section \<open>handle_event and master_loop\<close>

text \<open>
  \<^verbatim>\<open>for (i = 0; i < dir_watch_num; i++) if (dir_watches[i].wd == wd) break;\<close>
\<close>

fun wd_index :: "int \<Rightarrow> dir_watch list \<Rightarrow> nat" where
  "wd_index k [] = 0"
| "wd_index k (x # xs) = (if wd x = k then 0 else Suc (wd_index k xs))"

definition get_dirwatch_offset :: "int \<Rightarrow> lsyncd \<Rightarrow> int" where
  "get_dirwatch_offset k s =
     (let i = int (wd_index k (dir_watches s))
      in if i \<ge> dir_watch_num s then -1 else i)"

text \<open>
  \<^verbatim>\<open>struct inotify_event\<close>: the descriptor, the mask and the name (empty when the
  event is about the watched directory itself).

  The bits of the mask are the constants of \<^verbatim>\<open>sys/inotify.h\<close>, a header of the
  operating system; the values are those of the Linux interface.
\<close>

record inotify_event =
  ev_wd :: int
  ev_mask :: "32 word"
  ev_name :: string

definition IN_ACCESS :: "32 word" where "IN_ACCESS = 0x1"
definition IN_MODIFY :: "32 word" where "IN_MODIFY = 0x2"
definition IN_ATTRIB :: "32 word" where "IN_ATTRIB = 0x4"
definition IN_CLOSE_WRITE :: "32 word" where "IN_CLOSE_WRITE = 0x8"
definition IN_CLOSE_NOWRITE :: "32 word" where "IN_CLOSE_NOWRITE = 0x10"
definition IN_OPEN :: "32 word" where "IN_OPEN = 0x20"
definition IN_MOVED_FROM :: "32 word" where "IN_MOVED_FROM = 0x40"
definition IN_MOVED_TO :: "32 word" where "IN_MOVED_TO = 0x80"
definition IN_CREATE :: "32 word" where "IN_CREATE = 0x100"
definition IN_DELETE :: "32 word" where "IN_DELETE = 0x200"
definition IN_DELETE_SELF :: "32 word" where "IN_DELETE_SELF = 0x400"
definition IN_MOVE_SELF :: "32 word" where "IN_MOVE_SELF = 0x800"
definition IN_IGNORED :: "32 word" where "IN_IGNORED = 0x8000"
definition IN_ISDIR :: "32 word" where "IN_ISDIR = 0x40000000"

definition mask_texts :: "(32 word \<times> string) list" where
  "mask_texts =
     [(IN_ACCESS, ''ACCESS''), (IN_ATTRIB, ''ATTRIB''), (IN_CLOSE_WRITE, ''CLOSE_WRITE''),
      (IN_CLOSE_NOWRITE, ''CLOSE_NOWRITE''), (IN_CREATE, ''CREATE''), (IN_DELETE, ''DELETE''),
      (IN_DELETE_SELF, ''DELETE_SELF''), (IN_IGNORED, ''IGNORED''), (IN_MODIFY, ''MODIFY''),
      (IN_MOVE_SELF, ''MOVE_SELF''), (IN_MOVED_FROM, ''MOVED_FROM''), (IN_MOVED_TO, ''MOVED_TO''),
      (IN_OPEN, ''OPEN'')]"

text \<open>
  The loop that writes the names of the set bits into \<open>masktext[255]\<close>; \<open>None\<close> is
  its \<^verbatim>\<open>return false\<close> when the text would not fit.
\<close>

fun mask_text :: "(32 word \<times> string) list \<Rightarrow> 32 word \<Rightarrow> string \<Rightarrow> string option" where
  "mask_text [] m masktext = Some masktext"
| "mask_text (p # ps) m masktext =
     (if m AND fst p \<noteq> 0 then
        (if length masktext + length (snd p) + 3 \<ge> 255 then None
         else mask_text ps m ((if masktext \<noteq> [] then masktext @ '', '' else masktext) @ snd p))
      else mask_text ps m masktext)"

text \<open>
  The second half of \<open>handle_event\<close> (the part its comment wants moved into a function
  \<open>sync_dir\<close>): both paths of the directory \<open>i\<close>, the rsync of that directory, and on
  its failure the recursive rsync of the parent directory.
\<close>

definition sync_dir ::
  "nat \<Rightarrow> config \<Rightarrow> world \<Rightarrow> inotify_event \<Rightarrow> string \<Rightarrow> int \<Rightarrow> lsyncd \<Rightarrow> bool outcome option" where
  "sync_dir fuel cfg w event masktext i s =
     bind_outcome (buildpath fuel (PATH_MAX + 1) i None None s) (\<lambda>rp s1.
       if \<not> fst rp then Some (Ret False s1)
       else
     bind_outcome (buildpath fuel (PATH_MAX + 1) i None (Some (option_target cfg)) s1) (\<lambda>rd s2.
       if \<not> fst rd then Some (Ret False s2)
       else if (IN_CREATE OR IN_CLOSE_WRITE OR IN_DELETE OR IN_MOVED_TO OR IN_MOVED_FROM)
                 AND ev_mask event \<noteq> 0 then
         let s3 = emit (Printlogf LOG_NORMAL ''%s of %s in %s --> %s''
                          [S (Some masktext), S (Some (ev_name event)), S (Some (snd rp)),
                           S (Some (snd rd))]) s2
         in bind_outcome (Some (rsync cfg w (snd rp) (snd rd) False s3)) (\<lambda>ok s4.
              if \<not> ok then
                (if parent (dir_watches s4 ! nat i) \<noteq> -1 then
                   bind_outcome (buildpath fuel (PATH_MAX + 1) (parent (dir_watches s4 ! nat i))
                                   None None s4) (\<lambda>rp' s5.
                   bind_outcome (buildpath fuel (PATH_MAX + 1) (parent (dir_watches s5 ! nat i))
                                   None (Some (option_target cfg)) s5) (\<lambda>rd' s6.
                     let s7 = emit (Printlogf LOG_NORMAL ''Retry Directory resync with %s to %s''
                                      [S (Some (snd rp')), S (Some (snd rd'))]) s6
                     in bind_outcome (Some (rsync cfg w (snd rp') (snd rd') True s7)) (\<lambda>ok' s8.
                          if \<not> ok' then
                            Some (Exit LSYNCD_EXECRSYNCFAIL
                                    (emit (Printlogf LOG_ERROR ''Retry of rsync from %s to %s failed''
                                             [S (Some (snd rp')), S (Some (snd rd'))]) s8))
                          else Some (Ret False s8))))
                 else Some (Ret False s4))
              else Some (Ret False s4))
       else Some (Ret False s2)))"

text \<open>
  The first half of \<open>handle_event\<close> after the directory \<open>i\<close> of the event is
  found: a directory created or moved in is added with its subdirectories, a directory
  deleted or moved out is removed with them. The two results are not looked at.
\<close>

definition update_watches ::
  "nat \<Rightarrow> config \<Rightarrow> world \<Rightarrow> inotify_event \<Rightarrow> int \<Rightarrow> lsyncd \<Rightarrow> bool outcome option" where
  "update_watches fuel cfg w event i s =
     bind_outcome
       (if (IN_CREATE OR IN_MOVED_TO) AND ev_mask event \<noteq> 0 \<and> IN_ISDIR AND ev_mask event \<noteq> 0
        then add_dirwatch fuel cfg w (ev_name event) None False i s
        else Some (Ret True s))
       (\<lambda>added s1.
          if (IN_DELETE OR IN_MOVED_FROM) AND ev_mask event \<noteq> 0 \<and> IN_ISDIR AND ev_mask event \<noteq> 0
          then remove_dirwatch fuel (Some (ev_name event)) i s1
          else Some (Ret True s1))"

definition handle_event ::
  "nat \<Rightarrow> config \<Rightarrow> world \<Rightarrow> inotify_event \<Rightarrow> lsyncd \<Rightarrow> bool outcome option" where
  "handle_event fuel cfg w event s =
     (case mask_text mask_texts (ev_mask event) [] of
        None \<Rightarrow> Some (Ret False (emit (Printlogf LOG_ERROR ''bufferoverflow in handle_event'' []) s))
      | Some masktext \<Rightarrow>
          let s0 = emit (Printlogf LOG_DEBUG ''inotfy event: %s:%s''
                           [S (Some masktext), S (Some (ev_name event))]) s
          in if IN_IGNORED AND ev_mask event \<noteq> 0 then Some (Ret True s0)
             else if ev_name event \<in> set (exclude_dirs cfg) then Some (Ret True s0)
             else
               let i = get_dirwatch_offset (ev_wd event) s0
               in if i = -1 then
                    Some (Ret False
                      (emit (Printlogf LOG_ERROR
                               ''received an inotify event that doesnt match any watched directory :-(%d,%d)''
                               [I (uint (ev_mask event)), I (ev_wd event)]) s0))
                  else
                    bind_outcome (update_watches fuel cfg w event i s0)
                      (\<lambda>updated s2. sync_dir fuel cfg w event masktext i s2))"

text \<open>
  What one \<^verbatim>\<open>read\<close> of the inotify descriptor gives: a negative result with an
  \<open>errno\<close>, zero, or a buffer of events. The script of a run pairs each read with
  whether \<open>SIGTERM\<close> is caught while the read blocks (the handler clears
  \<open>keep_going\<close>). A script that ends leaves the next read blocked for ever.
\<close>

datatype read_result = Read_error int | Read_eof | Read_events "inotify_event list"

definition EINTR :: int where "EINTR = 4"

fun handle_events ::
  "nat \<Rightarrow> config \<Rightarrow> world \<Rightarrow> inotify_event list \<Rightarrow> lsyncd \<Rightarrow> unit outcome option" where
  "handle_events fuel cfg w [] s = Some (Ret () s)"
| "handle_events fuel cfg w (event # events) s =
     bind_outcome (handle_event fuel cfg w event s)
       (\<lambda>b s1. handle_events fuel cfg w events s1)"

fun master_loop ::
  "nat \<Rightarrow> config \<Rightarrow> world \<Rightarrow> (bool \<times> read_result) list \<Rightarrow> lsyncd \<Rightarrow> bool outcome option" where
  "master_loop fuel cfg w [] s = (if \<not> keep_going s then Some (Ret True s) else None)"
| "master_loop fuel cfg w (r # script) s =
     (if \<not> keep_going s then Some (Ret True s)
      else
        let s0 = (if fst r then s\<lparr>keep_going := False\<rparr> else s)
        in case snd r of
             Read_error errno \<Rightarrow>
               Some (Ret False (emit (Printlogf LOG_ERROR ''failed to read from inotify (%d:%s)''
                                        [I errno]) s0))
           | Read_eof \<Rightarrow> Some (Ret False (emit (Printlogf LOG_ERROR ''eof?'' []) s0))
           | Read_events events \<Rightarrow>
               bind_outcome (handle_events fuel cfg w events s0)
                 (\<lambda>u s1. master_loop fuel cfg w script s1))"

section \<open>What a run shows apart from its log\<close>






section \<open>Notions for the removal of a subtree\<close>

text \<open>
  The parent links have no cycle when the slots can be ranked so that every used slot
  ranks above its parent; \<open>R\<close> bounds the ranks.
\<close>

definition ranked :: "(nat \<Rightarrow> nat) \<Rightarrow> nat \<Rightarrow> dir_watch list \<Rightarrow> bool" where
  "ranked rank R ws \<longleftrightarrow>
     (\<forall>c < length ws. rank c \<le> R \<and>
        (wd (ws ! c) \<ge> 0 \<longrightarrow> (\<forall>p. parent (ws ! c) = int p \<longrightarrow> rank p < rank c)))"

text \<open>
  The slot \<open>dw\<close> with its live descendants: the used slots whose parent is \<open>dw\<close>, the
  used slots whose parent is one of those, and so on.
\<close>

inductive_set subtree :: "dir_watch list \<Rightarrow> nat \<Rightarrow> nat set" for ws :: "dir_watch list" and dw :: nat where
  root: "dw \<in> subtree ws dw"
| child: "p \<in> subtree ws dw \<Longrightarrow> c < length ws \<Longrightarrow> wd (ws ! c) \<ge> 0 \<Longrightarrow> parent (ws ! c) = int p \<Longrightarrow>
          c \<in> subtree ws dw"

text \<open>\<open>c\<close> stands in the list before the first \<open>p\<close>.\<close>

definition before :: "nat list \<Rightarrow> nat \<Rightarrow> nat \<Rightarrow> bool" where
  "before xs c p \<longleftrightarrow> c \<in> set (takeWhile (\<lambda>x. x \<noteq> p) xs)"

text \<open>
  A list of slots is in post-order when every used slot whose parent is in the list is in
  the list as well, before its parent.
\<close>

definition post_order :: "dir_watch list \<Rightarrow> nat list \<Rightarrow> bool" where
  "post_order ws order \<longleftrightarrow>
     (\<forall>p \<in> set order. \<forall>c < length ws.
        wd (ws ! c) \<ge> 0 \<and> parent (ws ! c) = int p \<longrightarrow> c \<in> set order \<and> before order c p)"

text \<open>
  A slot after its removal, and the state after the slots of a list were removed one
  after the other: one \<^verbatim>\<open>inotify_rm_watch\<close> for each, with the descriptor the slot
  held, and each slot left unused with both names released.
\<close>

definition released :: "dir_watch \<Rightarrow> dir_watch" where
  "released x = x\<lparr>wd := -1, dirname := None, destname := None\<rparr>"

definition removed :: "nat list \<Rightarrow> lsyncd \<Rightarrow> lsyncd" where
  "removed order s =
     s\<lparr>dir_watches :=
          map (\<lambda>c. if c \<in> set order then released (dir_watches s ! c) else dir_watches s ! c)
            [0 ..< length (dir_watches s)],
       effects := effects s @ map (\<lambda>c. Inotify_rm_watch (wd (dir_watches s ! c))) order\<rparr>"

text \<open>
  The orders in which the slots are released: by the loop of \<open>remove_dirwatch\<close> over
  the slots \<open>js\<close> (the used slots among them whose parent is \<open>dw\<close>, each after its
  own descendants), and by \<open>remove_dirwatch\<close> itself (the same, and \<open>dw\<close> last).
\<close>

definition loop_order :: "(nat \<Rightarrow> nat) \<Rightarrow> dir_watch list \<Rightarrow> nat \<Rightarrow> nat list \<Rightarrow> nat list \<Rightarrow> bool" where
  "loop_order rank ws dw is order \<longleftrightarrow>
     distinct order
     \<and> (\<forall>c \<in> set order. c < length ws \<and> wd (ws ! c) \<ge> 0 \<and> rank dw < rank c)
     \<and> set order \<subseteq> subtree ws dw
     \<and> post_order ws order
     \<and> (\<forall>i \<in> set is. i < length ws \<and> wd (ws ! i) \<ge> 0 \<and> parent (ws ! i) = int dw \<longrightarrow> i \<in> set order)"

definition tree_order :: "(nat \<Rightarrow> nat) \<Rightarrow> dir_watch list \<Rightarrow> nat \<Rightarrow> nat list \<Rightarrow> bool" where
  "tree_order rank ws dw order \<longleftrightarrow>
     distinct order \<and> order \<noteq> [] \<and> last order = dw
     \<and> (\<forall>c \<in> set (butlast order). c < length ws \<and> wd (ws ! c) \<ge> 0 \<and> rank dw < rank c)
     \<and> set order \<subseteq> subtree ws dw
     \<and> post_order ws order"

section \<open>Concrete inputs for the examples\<close>

definition cfg_demo :: config where
  "cfg_demo = \<lparr>flag_dryrun = False, rsync_binary = ''/usr/bin/rsync'', exclude_file = None,
                option_target = ''host::module/'', exclude_dirs = []\<rparr>"

definition world_demo :: "nat \<Rightarrow> world" where
  "world_demo st = \<lparr>kernel_add_watch = (\<lambda>p. 1), dir_entries = (\<lambda>p. Some []),
                     child_status = (\<lambda>a. Exited st)\<rparr>"

definition s_init :: lsyncd where
  "s_init = \<lparr>dir_watches = [], dir_watch_size = 2, keep_going = True, effects = []\<rparr>"

definition s_two :: lsyncd where
  "s_two = \<lparr>dir_watches = [\<lparr>wd = 1, dirname = Some ''/src/'', destname = Some [], parent = -1\<rparr>,
                            \<lparr>wd = -1, dirname = None, destname = None, parent = 0\<rparr>,
                            \<lparr>wd = 3, dirname = Some ''b'', destname = None, parent = 0\<rparr>,
                            \<lparr>wd = -1, dirname = None, destname = None, parent = 2\<rparr>],
             dir_watch_size = 8, keep_going = True, effects = []\<rparr>"

definition s_full :: lsyncd where
  "s_full = \<lparr>dir_watches = [\<lparr>wd = 1, dirname = Some ''/src/'', destname = Some [], parent = -1\<rparr>],
              dir_watch_size = 2, keep_going = True, effects = []\<rparr>"

text \<open>An exclude file of \<open>n\<close> lines, each the directory pattern \<open>d/\<close>.\<close>

fun dir_lines :: "nat \<Rightarrow> string" where
  "dir_lines 0 = []"
| "dir_lines (Suc n) = CHR ''d'' # CHR ''/'' # CHR 0x0A # dir_lines n"


text \<open>The state after the watches of \<open>a\<close>, \<open>a/b\<close> and \<open>a/b/c\<close> were added to \<open>s_full\<close>.\<close>

definition s_tree :: lsyncd where
  "s_tree = \<lparr>dir_watches =
       [\<lparr>wd = 1, dirname = Some ''/src/'', destname = Some [], parent = - 1\<rparr>,
        \<lparr>wd = 7, dirname = Some ''a'', destname = None, parent = 0\<rparr>,
        \<lparr>wd = 9, dirname = Some ''b'', destname = None, parent = 1\<rparr>,
        \<lparr>wd = 11, dirname = Some ''c'', destname = None, parent = 2\<rparr>],
       dir_watch_size = 8, keep_going = True,
       effects =
         [Inotify_add_watch ''/src//a'', Opendir ''/src//a'',
          Inotify_add_watch ''/src//a/b'', Opendir ''/src//a/b'',
          Inotify_add_watch ''/src//a/b/c'', Opendir ''/src//a/b/c'']\<rparr>"







text \<open>
  A file is written in the directory \<open>b\<close> of \<open>s_two\<close> (watch 3), and in the source
  directory itself (watch 1); \<open>s_write\<close> is the state after \<open>handle_event\<close> logged the
  event, and the two states after it are those the first rsync of either event ends in
  when every child exits with status 3.
\<close>

definition ev_write :: inotify_event where
  "ev_write = \<lparr>ev_wd = 3, ev_mask = IN_CLOSE_WRITE, ev_name = ''f''\<rparr>"

definition ev_root :: inotify_event where
  "ev_root = \<lparr>ev_wd = 1, ev_mask = IN_CLOSE_WRITE, ev_name = ''f''\<rparr>"

definition s_write :: lsyncd where
  "s_write = emit (Printlogf LOG_DEBUG ''inotfy event: %s:%s''
                     [S (Some ''CLOSE_WRITE''), S (Some ''f'')]) s_two"

definition s_write_synced :: lsyncd where
  "s_write_synced =
     final (rsync cfg_demo (world_demo 3) ''/src//b/'' ''host::module//b/'' False
              (emit (Printlogf LOG_NORMAL ''%s of %s in %s --> %s''
                       [S (Some ''CLOSE_WRITE''), S (Some ''f''), S (Some ''/src//b/''),
                        S (Some ''host::module//b/'')]) s_write))"

definition s_root_synced :: lsyncd where
  "s_root_synced =
     final (rsync cfg_demo (world_demo 3) ''/src//'' ''host::module//'' False
              (emit (Printlogf LOG_NORMAL ''%s of %s in %s --> %s''
                       [S (Some ''CLOSE_WRITE''), S (Some ''f''), S (Some ''/src//''),
                        S (Some ''host::module//'')]) s_write))"

section \<open>Properties of rsync\<close>

lemma effects_dump_argv:
  "effects (dump_argv i as s) =
     effects s @ map (\<lambda>(j, a). Printlogf LOG_DEBUG ''exec parameter %i:%s'' [I (int j), S a])
                     (zip [i ..< i + length as] as)"
proof (induction as arbitrary: i s)
  case Nil
  then show ?case by simp
next
  case (Cons a as)
  have "[i ..< i + length (a # as)] = i # [Suc i ..< Suc i + length as]"
    by (simp add: upt_rec)
  then show ?case by (simp add: Cons.IH emit_def)
qed

lemma execs_emit: "execs (emit e s) = execs s @ (if is_exec e then [e] else [])"
  by (simp add: execs_def emit_def)

lemma execs_dump_argv: "execs (dump_argv i as s) = execs s"
  by (induction as arbitrary: i s) (simp_all add: execs_emit)

lemma length_rsync_argv: "length (rsync_argv cfg src dest recursive) \<le> 8"
  by (simp add: rsync_argv_def Let_def split: option.split)

text \<open>
  C6. The argument vector handed to \<^verbatim>\<open>execv\<close> is: the binary, \<open>--delete\<close>, then
  \<open>-ltr\<close> for a recursive call and \<open>-ltd\<close> otherwise, then \<open>--exclude-from\<close> and the
  file when an exclude file is configured (and nothing when none is), then the source, the
  destination and the terminating \<open>NULL\<close>. Unless the run is dry, \<open>rsync\<close> spawns
  exactly one child, with this vector.
\<close>

theorem rsync_argv_shape:
  "rsync_argv cfg src dest recursive =
     [Some (rsync_binary cfg), Some ''--delete'', Some (if recursive then ''-ltr'' else ''-ltd'')]
     @ (case exclude_file cfg of None \<Rightarrow> [] | Some f \<Rightarrow> [Some ''--exclude-from'', Some f])
     @ [Some src, Some dest, None]
   \<and> (rsync_argv cfg src dest recursive ! 2 = Some ''-ltr'') = recursive
   \<and> (rsync_argv cfg src dest recursive ! 2 = Some ''-ltd'') = (\<not> recursive)
   \<and> execs (final (rsync cfg w src dest recursive s)) =
       execs s @ (if flag_dryrun cfg then []
                  else [Fork_execv (rsync_binary cfg) (rsync_argv cfg src dest recursive)])"
proof -
  have shape: "rsync_argv cfg src dest recursive =
     [Some (rsync_binary cfg), Some ''--delete'', Some (if recursive then ''-ltr'' else ''-ltd'')]
     @ (case exclude_file cfg of None \<Rightarrow> [] | Some f \<Rightarrow> [Some ''--exclude-from'', Some f])
     @ [Some src, Some dest, None]"
    by (simp add: rsync_argv_def Let_def split: option.split)
  have r: "(rsync_argv cfg src dest recursive ! 2 = Some ''-ltr'') = recursive"
    by (simp add: shape)
  have d: "(rsync_argv cfg src dest recursive ! 2 = Some ''-ltd'') = (\<not> recursive)"
    by (simp add: shape)
  have len: "\<not> length (rsync_argv cfg src dest recursive) > MAX_ARGS"
    using length_rsync_argv [of cfg src dest recursive] by (simp add: MAX_ARGS_def)
  have e: "execs (final (rsync cfg w src dest recursive s)) =
       execs s @ (if flag_dryrun cfg then []
                  else [Fork_execv (rsync_binary cfg) (rsync_argv cfg src dest recursive)])"
  proof (cases "flag_dryrun cfg")
    case True
    then show ?thesis using len by (simp add: rsync_def Let_def execs_dump_argv)
  next
    case False
    then show ?thesis using len
      by (cases "child_status w (rsync_argv cfg src dest recursive)")
         (simp_all add: rsync_def Let_def execs_emit execs_dump_argv)
  qed
  from shape r d e show ?thesis by blast
qed

text \<open>
  C2 (as the code has it). \<open>rsync\<close> returns a \<open>bool\<close>: in a dry run it returns
  \<open>true\<close> and spawns no child; otherwise, for a child that exited with a status, it
  returns \<open>true\<close> for status zero and \<open>false\<close> for every other status, 255 included.
  Status 255 differs from the other failures only in the message logged (at error level
  instead of normal level).
\<close>

theorem rsync_status_mapping:
  "(flag_dryrun cfg \<longrightarrow>
      returned (rsync cfg w src dest recursive s) = Some True
      \<and> execs (final (rsync cfg w src dest recursive s)) = execs s)
   \<and> (\<not> flag_dryrun cfg \<and> child_status w (rsync_argv cfg src dest recursive) = Exited st \<longrightarrow>
      returned (rsync cfg w src dest recursive s) = Some (st = 0)
      \<and> last (effects (final (rsync cfg w src dest recursive s))) =
          (if st = 255 then Printlogf LOG_ERROR ''Fork exit code of %i, execv failure'' [I (int st)]
           else if st \<noteq> 0 then Printlogf LOG_NORMAL
                  ''Forked rsync process returned non-zero return code: %i'' [I (int st)]
           else Printlogf LOG_DEBUG ''Rsync of [%s] -> [%s] finished'' [S (Some src), S (Some dest)]))"
proof -
  have len: "\<not> length (rsync_argv cfg src dest recursive) > MAX_ARGS"
    using length_rsync_argv [of cfg src dest recursive] by (simp add: MAX_ARGS_def)
  show ?thesis
    using len
    by (simp add: rsync_def Let_def execs_dump_argv LSYNCD_INTERNALFAIL_def emit_def)
qed

theorem rsync_status_mapping_witness:
  "returned (rsync (cfg_demo\<lparr>flag_dryrun := True\<rparr>) (world_demo 7) ''/src/a/'' ''host::module/a/'' False s_init)
     = Some True
   \<and> execs (final (rsync (cfg_demo\<lparr>flag_dryrun := True\<rparr>) (world_demo 7) ''/src/a/'' ''host::module/a/''
                         False s_init)) = []
   \<and> returned (rsync cfg_demo (world_demo 0) ''/src/a/'' ''host::module/a/'' False s_init) = Some True
   \<and> returned (rsync cfg_demo (world_demo 7) ''/src/a/'' ''host::module/a/'' False s_init) = Some False
   \<and> returned (rsync cfg_demo (world_demo 255) ''/src/a/'' ''host::module/a/'' False s_init) = Some False"
  using rsync_status_mapping [where cfg = "cfg_demo\<lparr>flag_dryrun := True\<rparr>" and w = "world_demo 7"
          and src = "''/src/a/''" and dest = "''host::module/a/''" and recursive = False
          and s = s_init and st = 7]
    rsync_status_mapping [where cfg = cfg_demo and w = "world_demo 0"
          and src = "''/src/a/''" and dest = "''host::module/a/''" and recursive = False
          and s = s_init and st = 0]
    rsync_status_mapping [where cfg = cfg_demo and w = "world_demo 7"
          and src = "''/src/a/''" and dest = "''host::module/a/''" and recursive = False
          and s = s_init and st = 7]
    rsync_status_mapping [where cfg = cfg_demo and w = "world_demo 255"
          and src = "''/src/a/''" and dest = "''host::module/a/''" and recursive = False
          and s = s_init and st = 255]
  by (simp add: cfg_demo_def world_demo_def s_init_def execs_def)

text \<open>
  C2 as stated fails: the value returned for the sentinel 255 is the value returned for
  any other failure, so a caller cannot tell the two apart.
\<close>

theorem rsync_fatal_counterexample:
  "returned (rsync cfg_demo (world_demo 255) ''/src/a/'' ''host::module/a/'' False s_init) =
   returned (rsync cfg_demo (world_demo 1) ''/src/a/'' ''host::module/a/'' False s_init)"
  by (simp add: rsync_def rsync_argv_def Let_def cfg_demo_def world_demo_def MAX_ARGS_def
        LSYNCD_INTERNALFAIL_def)

section \<open>Properties of add_watch\<close>

lemma unused_slot_le: "unused_slot xs \<le> length xs"
  by (induction xs) auto

lemma unused_slot_free: "unused_slot xs < length xs \<Longrightarrow> wd (xs ! unused_slot xs) < 0"
  by (induction xs) (auto split: if_splits)

lemma unused_slot_lowest: "j < unused_slot xs \<Longrightarrow> \<not> wd (xs ! j) < 0"
proof (induction xs arbitrary: j)
  case Nil
  then show ?case by simp
next
  case (Cons x xs)
  then show ?case by (cases j) (auto split: if_splits)
qed

lemma unused_slot_found: "i < length xs \<Longrightarrow> wd (xs ! i) < 0 \<Longrightarrow> unused_slot xs \<le> i"
  using unused_slot_lowest [of i xs] by (cases "i < unused_slot xs") auto

text \<open>
  C3 (as the code has it). When the kernel hands out a descriptor, \<open>add_watch\<close> never
  fails: it does not look for a node that already holds that descriptor. The new node goes
  into the lowest-indexed unused slot (negative \<open>wd\<close>) when there is one, and the table
  keeps its length and allocated size; otherwise it is appended at index
  \<open>dir_watch_num\<close>, and the allocated size doubles exactly when
  \<open>dir_watch_num + 1 \<ge> dir_watch_size\<close>. Every other slot keeps its index and contents.
\<close>

theorem add_watch_slot:
  assumes k: "kernel_add_watch w pathname \<noteq> -1"
  shows "fst (add_watch w pathname dn dest par s) = int (unused_slot (dir_watches s))
    \<and> unused_slot (dir_watches s) \<le> length (dir_watches s)
    \<and> (\<forall>i < length (dir_watches s). wd (dir_watches s ! i) < 0 \<longrightarrow>
          unused_slot (dir_watches s) \<le> i
          \<and> wd (dir_watches s ! unused_slot (dir_watches s)) < 0
          \<and> length (dir_watches (snd (add_watch w pathname dn dest par s))) = length (dir_watches s)
          \<and> dir_watch_size (snd (add_watch w pathname dn dest par s)) = dir_watch_size s)
    \<and> ((\<forall>i < length (dir_watches s). \<not> wd (dir_watches s ! i) < 0) \<longrightarrow>
          unused_slot (dir_watches s) = length (dir_watches s)
          \<and> length (dir_watches (snd (add_watch w pathname dn dest par s))) = length (dir_watches s) + 1
          \<and> dir_watch_size (snd (add_watch w pathname dn dest par s)) =
               (if dir_watch_num s + 1 \<ge> dir_watch_size s then dir_watch_size s * 2
                else dir_watch_size s))
    \<and> (\<forall>j < length (dir_watches s). j \<noteq> unused_slot (dir_watches s) \<longrightarrow>
          dir_watches (snd (add_watch w pathname dn dest par s)) ! j = dir_watches s ! j)
    \<and> dir_watches (snd (add_watch w pathname dn dest par s)) ! unused_slot (dir_watches s) =
          \<lparr>wd = kernel_add_watch w pathname, dirname = Some dn, destname = dest, parent = par\<rparr>"
proof -
  let ?ws = "dir_watches s"
  let ?n = "unused_slot ?ws"
  let ?r = "add_watch w pathname dn dest par s"
  have le: "?n \<le> length ?ws" by (rule unused_slot_le)
  have idx: "fst ?r = int ?n"
    using k by (simp add: add_watch_def Let_def emit_def)
  have reuse: "\<forall>i < length ?ws. wd (?ws ! i) < 0 \<longrightarrow>
          ?n \<le> i \<and> wd (?ws ! ?n) < 0
          \<and> length (dir_watches (snd ?r)) = length ?ws
          \<and> dir_watch_size (snd ?r) = dir_watch_size s"
  proof (intro allI impI)
    fix i assume i: "i < length ?ws" and neg: "wd (?ws ! i) < 0"
    have a: "?n \<le> i" using i neg by (rule unused_slot_found)
    then have lt: "?n < length ?ws" using i by simp
    have b: "wd (?ws ! ?n) < 0" using lt by (rule unused_slot_free)
    have c: "length (dir_watches (snd ?r)) = length ?ws"
      using k lt by (simp add: add_watch_def Let_def emit_def)
    have d: "dir_watch_size (snd ?r) = dir_watch_size s"
      using k lt by (simp add: add_watch_def Let_def emit_def)
    from a b c d show "?n \<le> i \<and> wd (?ws ! ?n) < 0
          \<and> length (dir_watches (snd ?r)) = length ?ws
          \<and> dir_watch_size (snd ?r) = dir_watch_size s" by blast
  qed
  have append: "(\<forall>i < length ?ws. \<not> wd (?ws ! i) < 0) \<longrightarrow>
          ?n = length ?ws
          \<and> length (dir_watches (snd ?r)) = length ?ws + 1
          \<and> dir_watch_size (snd ?r) =
               (if dir_watch_num s + 1 \<ge> dir_watch_size s then dir_watch_size s * 2
                else dir_watch_size s)"
  proof
    assume full: "\<forall>i < length ?ws. \<not> wd (?ws ! i) < 0"
    have a: "?n = length ?ws"
    proof (rule ccontr)
      assume "?n \<noteq> length ?ws"
      then have lt: "?n < length ?ws" using le by simp
      then have "wd (?ws ! ?n) < 0" by (rule unused_slot_free)
      with full lt show False by blast
    qed
    have b: "length (dir_watches (snd ?r)) = length ?ws + 1"
      using k a by (simp add: add_watch_def Let_def emit_def)
    have c: "dir_watch_size (snd ?r) =
               (if dir_watch_num s + 1 \<ge> dir_watch_size s then dir_watch_size s * 2
                else dir_watch_size s)"
      using k a by (simp add: add_watch_def Let_def emit_def dir_watch_num_def)
    from a b c show "?n = length ?ws
          \<and> length (dir_watches (snd ?r)) = length ?ws + 1
          \<and> dir_watch_size (snd ?r) =
               (if dir_watch_num s + 1 \<ge> dir_watch_size s then dir_watch_size s * 2
                else dir_watch_size s)" by blast
  qed
  have keep: "\<forall>j < length ?ws. j \<noteq> ?n \<longrightarrow> dir_watches (snd ?r) ! j = ?ws ! j"
    using k by (simp add: add_watch_def Let_def emit_def nth_append)
  have new: "dir_watches (snd ?r) ! ?n =
          \<lparr>wd = kernel_add_watch w pathname, dirname = Some dn, destname = dest, parent = par\<rparr>"
  proof (cases "?n = length ?ws")
    case True
    then show ?thesis using k by (simp add: add_watch_def Let_def emit_def)
  next
    case False
    then have "?n < length ?ws" using le by simp
    then show ?thesis using k by (simp add: add_watch_def Let_def emit_def)
  qed
  from idx le reuse append keep new show ?thesis by blast
qed

theorem add_watch_slot_witness:
  "fst (add_watch (world_demo 0) ''/src/a'' ''a'' None 0 s_two) = 1
   \<and> length (dir_watches (snd (add_watch (world_demo 0) ''/src/a'' ''a'' None 0 s_two))) = 4
   \<and> dir_watch_size (snd (add_watch (world_demo 0) ''/src/a'' ''a'' None 0 s_two)) = 8
   \<and> fst (add_watch (world_demo 0) ''/src/a'' ''a'' None 0 s_full) = 1
   \<and> length (dir_watches (snd (add_watch (world_demo 0) ''/src/a'' ''a'' None 0 s_full))) = 2
   \<and> dir_watch_size (snd (add_watch (world_demo 0) ''/src/a'' ''a'' None 0 s_full)) = 4"
proof -
  have k: "kernel_add_watch (world_demo 0) ''/src/a'' \<noteq> -1"
    by (simp add: world_demo_def)
  have two: "unused_slot (dir_watches s_two) = 1" "length (dir_watches s_two) = 4"
    "wd (dir_watches s_two ! 1) < 0" "dir_watch_size s_two = 8"
    by (simp_all add: s_two_def)
  have full: "unused_slot (dir_watches s_full) = 1" "length (dir_watches s_full) = 1"
    "\<forall>i < length (dir_watches s_full). \<not> wd (dir_watches s_full ! i) < 0"
    "dir_watch_num s_full + 1 \<ge> dir_watch_size s_full" "dir_watch_size s_full = 2"
    by (simp_all add: s_full_def dir_watch_num_def)
  from add_watch_slot [OF k, of "''a''" None 0 s_two] two
  have a: "fst (add_watch (world_demo 0) ''/src/a'' ''a'' None 0 s_two) = 1
   \<and> length (dir_watches (snd (add_watch (world_demo 0) ''/src/a'' ''a'' None 0 s_two))) = 4
   \<and> dir_watch_size (snd (add_watch (world_demo 0) ''/src/a'' ''a'' None 0 s_two)) = 8"
    by auto
  from add_watch_slot [OF k, of "''a''" None 0 s_full] full
  have b: "fst (add_watch (world_demo 0) ''/src/a'' ''a'' None 0 s_full) = 1
   \<and> length (dir_watches (snd (add_watch (world_demo 0) ''/src/a'' ''a'' None 0 s_full))) = 2
   \<and> dir_watch_size (snd (add_watch (world_demo 0) ''/src/a'' ''a'' None 0 s_full)) = 4"
    by auto
  from a b show ?thesis by blast
qed

text \<open>
  C3 as stated fails in its last part: inserting a descriptor that a live node already
  holds succeeds, and the table then has two live nodes with that descriptor.
\<close>

theorem add_watch_duplicate_counterexample:
  "fst (add_watch (world_demo 0) ''/src/a'' ''a'' None 0 s_full) = 1
   \<and> map wd (dir_watches (snd (add_watch (world_demo 0) ''/src/a'' ''a'' None 0 s_full))) = [1, 1]"
  by (simp add: add_watch_def Let_def world_demo_def s_full_def emit_def)

section \<open>Properties of parse_exclude_file\<close>

lemma fgets_pos:
  "0 < n \<Longrightarrow> fgets n (c # cs) =
     (if c = CHR 0x0A then ([c], cs) else (case fgets (n - 1) cs of (l, r) \<Rightarrow> (c # l, r)))"
  by (cases n) simp_all

lemma parse_dir_line:
  "parse_exclude_lines (CHR ''d'' # CHR ''/'' # CHR 0x0A # rest) e dirs =
     (if int (length dirs) + 1 \<ge> int MAX_EXCLUDES then Inl LSYNCD_TOOMANYDIRECTORYEXCLUDES
      else parse_exclude_lines rest e (dirs @ [''d'']))"
  by (subst parse_exclude_lines.simps)
     (simp add: fgets_pos PATH_MAX_def c_string_def Let_def)

lemma parse_dir_lines:
  "length dirs + k < MAX_EXCLUDES \<Longrightarrow>
   parse_exclude_lines (dir_lines k) e dirs =
     (if e then Inl LSYNCD_FILENOTFOUND else Inr (dirs @ replicate k ''d''))"
proof (induction k arbitrary: dirs)
  case 0
  then show ?case by (subst parse_exclude_lines.simps) simp
next
  case (Suc k)
  then show ?case by (simp add: parse_dir_line replicate_app_Cons_same)
qed

lemma parse_dir_lines_over:
  "length dirs + k = MAX_EXCLUDES \<Longrightarrow> 0 < k \<Longrightarrow>
   parse_exclude_lines (dir_lines k) e dirs = Inl LSYNCD_TOOMANYDIRECTORYEXCLUDES"
proof (induction k arbitrary: dirs)
  case 0
  then show ?case by simp
next
  case (Suc k)
  show ?case
  proof (cases k)
    case 0
    then show ?thesis using Suc.prems by (simp add: parse_dir_line)
  next
    case (Suc j)
    then show ?thesis using Suc.prems Suc.IH [of "dirs @ [''d'']"] by (simp add: parse_dir_line)
  qed
qed

text \<open>
  C7 (where the code departs from it). The exclude file may hold up to 256 directory
  patterns; more are a fatal error with exit code 5. The code: an exclude file with 255
  directory patterns is accepted, and all 255 are stored; an exclude file with 256
  directory patterns, which the array of \<open>MAX_EXCLUDES\<close> entries and the error message
  "can only have 256 at the most" allow, ends the process with exit code 5 at its last
  line: the test \<open>exclude_dir_n + 1 \<ge> MAX_EXCLUDES\<close> is off by one.
\<close>

theorem parse_exclude_file_cap:
  "parse_exclude_file (Some (dir_lines 255, False)) = Inr (replicate 255 ''d'')
   \<and> parse_exclude_file (Some (dir_lines 256, False)) = Inl 5"
  using parse_dir_lines [of "[]" 255 False] parse_dir_lines_over [of "[]" 256 False]
  by (simp add: parse_exclude_file_def MAX_EXCLUDES_def LSYNCD_TOOMANYDIRECTORYEXCLUDES_def)

section \<open>Properties of master_loop\<close>

text \<open>
  C8 (as the code has it). While \<open>keep_going\<close> is set, a read that returns zero and a
  read that returns a negative result both make \<open>master_loop\<close> return \<open>false\<close>,
  whatever \<open>errno\<close> is (\<open>EINTR\<close> included), whether or not the signal handler has
  run, and whatever reads would follow.
\<close>

theorem master_loop_read_failure:
  assumes "keep_going s"
    and "r = Read_eof \<or> r = Read_error errno"
  shows "map_option returned (master_loop fuel cfg w ((sig, r) # script) s) = Some (Some False)"
  using assms by auto

theorem master_loop_read_failure_witness:
  "map_option returned (master_loop 0 cfg_demo (world_demo 0) [(False, Read_eof)] s_full)
     = Some (Some False)
   \<and> map_option returned (master_loop 0 cfg_demo (world_demo 0) [(False, Read_error 9)] s_full)
     = Some (Some False)"
proof -
  have k: "keep_going s_full" by (simp add: s_full_def)
  have a: "Read_eof = Read_eof \<or> Read_eof = Read_error 0" by simp
  have b: "Read_error 9 = Read_eof \<or> Read_error 9 = Read_error 9" by simp
  from master_loop_read_failure [OF k a] master_loop_read_failure [OF k b]
  show ?thesis by blast
qed

text \<open>
  C8 as stated fails: a read interrupted by the signal (\<open>errno = EINTR\<close>) ends the loop
  with \<open>false\<close> like any other failed read.
\<close>

theorem master_loop_eintr_counterexample:
  "map_option returned
     (master_loop 0 cfg_demo (world_demo 0) [(True, Read_error EINTR)] s_full) = Some (Some False)"
  by (simp add: s_full_def)

section \<open>Properties of buildpath\<close>

lemma buildpath_prefix_unchecked:
  "pre \<noteq> ''%wwwuser'' \<Longrightarrow> length pre + 1 > pathsize \<Longrightarrow>
   buildpath fuel pathsize watch dn (Some pre) s = Some (Fault Buffer_overflow s)"
  by (simp add: buildpath_def add_prefix_def)

text \<open>
  C5 (where the code departs from it). \<open>buildpath\<close> is to fail, and to write nothing
  past its buffer, when the path with its prefix is too long. The code: with a prefix of
  4097 characters (a target given on the command line) \<open>buildpath\<close> copies the prefix
  into the buffer of \<open>PATH_MAX + 1 = 4097\<close> bytes before any test of a length, and the
  write goes past the buffer. The names of the directories and \<open>dirname\<close> are tested
  before they are copied: with a prefix of 4096 characters the same call returns
  \<open>false\<close> and the buffer holds the prefix only.
\<close>

theorem buildpath_prefix_overflow:
  "buildpath fuel (PATH_MAX + 1) 2 None (Some (replicate 4097 CHR ''x'')) s_two
     = Some (Fault Buffer_overflow s_two)
   \<and> map_option returned
       (buildpath (Suc (Suc (Suc fuel))) (PATH_MAX + 1) 2 None (Some (replicate 4096 CHR ''x'')) s_two)
     = Some (Some (False, replicate 4096 CHR ''x''))"
proof -
  have "length (replicate 4097 CHR ''x'') \<noteq> length ''%wwwuser''" by simp
  then have ne: "replicate 4097 CHR ''x'' \<noteq> ''%wwwuser''" by metis
  have a: "buildpath fuel (PATH_MAX + 1) 2 None (Some (replicate 4097 CHR ''x'')) s_two
     = Some (Fault Buffer_overflow s_two)"
    using ne by (intro buildpath_prefix_unchecked) (simp_all add: PATH_MAX_def)
  have "length (replicate 4096 CHR ''x'') \<noteq> length ''%wwwuser''" by simp
  then have ne': "replicate 4096 CHR ''x'' \<noteq> ''%wwwuser''" by metis
  have b: "map_option returned
       (buildpath (Suc (Suc (Suc fuel))) (PATH_MAX + 1) 2 None (Some (replicate 4096 CHR ''x'')) s_two)
     = Some (Some (False, replicate 4096 CHR ''x''))"
    using ne' by (simp add: buildpath_def add_prefix_def add_dirname_def PATH_MAX_def s_two_def
          tmpname_def numeral_2_eq_2)
  from a b show ?thesis by blast
qed

section \<open>Properties of remove_dirwatch\<close>

lemma child_index_miss:
  "\<forall>x \<in> set xs. wd x \<ge> 0 \<and> parent x = par \<longrightarrow> (\<exists>d. dirname x = Some d \<and> d \<noteq> name) \<Longrightarrow>
   child_index name par xs i = Inr (i + length xs)"
  by (induction xs arbitrary: i) auto

text \<open>
  C10. When no used slot with parent \<open>par\<close> carries the name, \<open>remove_dirwatch\<close>
  returns \<open>false\<close>; all it does is log the error: the table, its size and
  \<open>keep_going\<close> are unchanged, and no kernel watch is removed.
\<close>

theorem remove_dirwatch_miss:
  assumes "\<forall>x \<in> set (dir_watches s).
             wd x \<ge> 0 \<and> parent x = par \<longrightarrow> (\<exists>d. dirname x = Some d \<and> d \<noteq> name)"
  shows "remove_dirwatch (Suc fuel) (Some name) par s =
           Some (Ret False (s\<lparr>effects := effects s @
                   [Printlogf LOG_ERROR ''Cannot find entry for %s:/:%s :-(''
                      [S (dirname_at s par), S (Some name)]]\<rparr>))"
  using child_index_miss [OF assms, of 0]
  by (simp add: dir_watch_num_def emit_def)

theorem remove_dirwatch_miss_witness:
  "remove_dirwatch 1 (Some ''c'') 0 s_two =
     Some (Ret False (s_two\<lparr>effects :=
             [Printlogf LOG_ERROR ''Cannot find entry for %s:/:%s :-(''
                [S (Some ''/src/''), S (Some ''c'')]]\<rparr>))"
proof -
  have h: "\<forall>x \<in> set (dir_watches s_two).
             wd x \<ge> 0 \<and> parent x = 0 \<longrightarrow> (\<exists>d. dirname x = Some d \<and> d \<noteq> ''c'')"
    by (simp add: s_two_def)
  have e: "effects s_two = []" "dirname_at s_two 0 = Some ''/src/''"
    by (simp_all add: s_two_def dirname_at_def dir_watch_num_def)
  from remove_dirwatch_miss [OF h, of 0] e show ?thesis by simp
qed

section \<open>Properties of add_dirwatch\<close>













































section \<open>Properties of handle_event\<close>

lemma count_parents_shift:
  "count_parents f ws p (Suc a) = map_option (map_sum id Suc) (count_parents f ws p a)"
  by (induction f arbitrary: p a) simp_all

lemma count_parents_mono:
  "count_parents f ws p a = Some r \<Longrightarrow> count_parents (Suc f) ws p a = Some r"
proof (induction f arbitrary: p a)
  case 0
  then show ?case by simp
next
  case (Suc f)
  show ?case
  proof (cases "p = -1 \<or> p < 0 \<or> p \<ge> int (length ws)")
    case True
    then show ?thesis using Suc.prems by auto
  next
    case False
    then have "count_parents f ws (parent (ws ! nat p)) (Suc a) = Some r"
      using Suc.prems by simp
    from Suc.IH [OF this] show ?thesis using False by simp
  qed
qed

lemma add_segments_ok_state:
  "add_segments ws i b sz n path s = Ret (True, q) s' \<Longrightarrow> s' = s"
proof (induction n arbitrary: path)
  case 0
  then show ?case by simp
next
  case (Suc n)
  then show ?case
    by (cases "tmpname b (ws ! nat (nth_parent ws i n))") (simp_all split: if_splits)
qed

lemma add_segments_parent:
  "add_segments ws i b sz (Suc n) path s =
     (case add_segments ws (parent (ws ! nat i)) b sz n path s of
        Ret r s' \<Rightarrow> if fst r then add_segments ws i b sz (Suc 0) (snd r) s' else Ret r s'
      | Exit c s' \<Rightarrow> Exit c s'
      | Fault x s' \<Rightarrow> Fault x s')"
proof (induction n arbitrary: path)
  case 0
  show ?case by simp
next
  case (Suc n)
  have unf: "add_segments ws i b sz (Suc (Suc n)) path s =
     (case tmpname b (ws ! nat (nth_parent ws (parent (ws ! nat i)) n)) of
        None \<Rightarrow> Fault Null_deref s
      | Some t \<Rightarrow>
          if length path + length t + 2 \<ge> sz then
            Ret (False, path) (emit (Printlogf LOG_ERROR ''path too long %s/...'' [S (Some t)]) s)
          else add_segments ws i b sz (Suc n) ((path @ t) @ ''/'') s)"
    by (subst add_segments.simps) simp
  have unf2: "add_segments ws (parent (ws ! nat i)) b sz (Suc n) path s =
     (case tmpname b (ws ! nat (nth_parent ws (parent (ws ! nat i)) n)) of
        None \<Rightarrow> Fault Null_deref s
      | Some t \<Rightarrow>
          if length path + length t + 2 \<ge> sz then
            Ret (False, path) (emit (Printlogf LOG_ERROR ''path too long %s/...'' [S (Some t)]) s)
          else add_segments ws (parent (ws ! nat i)) b sz n ((path @ t) @ ''/'') s)"
    by simp
  show ?case
    unfolding unf unf2
    by (cases "tmpname b (ws ! nat (nth_parent ws (parent (ws ! nat i)) n))")
       (simp_all add: Suc.IH del: add_segments.simps(2))
qed

lemma add_segments_table:
  "add_segments ws i b sz n path s = Ret (True, q) s \<Longrightarrow>
   add_segments ws i b sz n path t = Ret (True, q) t"
proof (induction n arbitrary: path)
  case 0
  then show ?case by simp
next
  case (Suc n)
  then show ?case
    by (cases "tmpname b (ws ! nat (nth_parent ws i n))") (simp_all split: if_splits)
qed

lemma buildpath_ok_iff:
  "buildpath fuel sz i None pre s = Some (Ret (True, p) s') \<longleftrightarrow>
   (\<exists>path ps. add_prefix sz pre = Inr path \<and> count_parents fuel (dir_watches s) i 0 = Some (Inr ps)
      \<and> add_segments (dir_watches s) i (pre \<noteq> None) sz ps path s = Ret (True, p) s')"
proof (cases "add_prefix sz pre")
  case (Inl x)
  then show ?thesis by (simp add: buildpath_def)
next
  case (Inr path)
  show ?thesis
  proof (cases "count_parents fuel (dir_watches s) i 0")
    case None
    then show ?thesis using Inr by (simp add: buildpath_def)
  next
    case (Some c)
    show ?thesis
    proof (cases c)
      case (Inl x)
      then show ?thesis using \<open>add_prefix sz pre = Inr path\<close> Some by (simp add: buildpath_def)
    next
      case (Inr ps)
      show ?thesis
        using \<open>add_prefix sz pre = Inr path\<close> Some Inr
        by (cases "add_segments (dir_watches s) i (pre \<noteq> None) sz ps path s")
           (auto simp: buildpath_def add_dirname_def)
    qed
  qed
qed

lemma buildpath_ok_state:
  "buildpath fuel sz i None pre s = Some (Ret (True, p) s') \<Longrightarrow> s' = s"
  unfolding buildpath_ok_iff by (auto dest: add_segments_ok_state)

lemma buildpath_table:
  assumes "buildpath fuel sz i None pre s = Some (Ret (True, p) s)"
    and "dir_watches t = dir_watches s"
  shows "buildpath fuel sz i None pre t = Some (Ret (True, p) t)"
  using assms unfolding buildpath_ok_iff by (auto dest: add_segments_table [where t = t])

lemma buildpath_parent:
  assumes ok: "buildpath fuel sz i None pre s = Some (Ret (True, p) s)"
    and i: "i \<noteq> -1"
  shows "\<exists>pp. buildpath fuel sz (parent (dir_watches s ! nat i)) None pre s = Some (Ret (True, pp) s)"
proof -
  let ?ws = "dir_watches s"
  let ?par = "parent (?ws ! nat i)"
  from ok obtain path ps where pre: "add_prefix sz pre = Inr path"
    and cp: "count_parents fuel ?ws i 0 = Some (Inr ps)"
    and seg: "add_segments ?ws i (pre \<noteq> None) sz ps path s = Ret (True, p) s"
    unfolding buildpath_ok_iff by blast
  from cp obtain f where f: "fuel = Suc f" by (cases fuel) auto
  from cp i f have cp1: "count_parents f ?ws ?par (Suc 0) = Some (Inr ps)"
    by (simp split: if_splits)
  then obtain n where n: "ps = Suc n" and cp0: "count_parents f ?ws ?par 0 = Some (Inr n)"
    unfolding count_parents_shift
    by (cases "count_parents f ?ws ?par 0") (auto simp: map_sum_def split: sum.splits)
  from count_parents_mono [OF cp0] f have cp': "count_parents fuel ?ws ?par 0 = Some (Inr n)"
    by simp
  from seg n have "add_segments ?ws i (pre \<noteq> None) sz (Suc n) path s = Ret (True, p) s" by simp
  then obtain r s' where r: "add_segments ?ws ?par (pre \<noteq> None) sz n path s = Ret r s'" and "fst r"
    unfolding add_segments_parent [of ?ws i _ sz n path s]
    by (cases "add_segments ?ws ?par (pre \<noteq> None) sz n path s") (auto split: if_splits)
  then have r': "add_segments ?ws ?par (pre \<noteq> None) sz n path s = Ret (True, snd r) s'"
    by (cases r) simp
  from add_segments_ok_state [OF r'] r' have "add_segments ?ws ?par (pre \<noteq> None) sz n path s = Ret (True, snd r) s"
    by simp
  with pre cp' show ?thesis unfolding buildpath_ok_iff by blast
qed

lemma dir_watches_emit [simp]: "dir_watches (emit e s) = dir_watches s"
  by (simp add: emit_def)

lemma dir_watches_dump_argv [simp]: "dir_watches (dump_argv n as s) = dir_watches s"
  by (induction as arbitrary: n s) simp_all

lemma rsync_table: "dir_watches (final (rsync cfg w src dest r s)) = dir_watches s"
  by (simp add: rsync_def Let_def split: wstatus.split)

lemma get_dirwatch_offset_emit [simp]: "get_dirwatch_offset k (emit e s) = get_dirwatch_offset k s"
  by (simp add: get_dirwatch_offset_def dir_watch_num_def)

lemma mask_text_bound:
  "length acc + sum_list (map (\<lambda>p. length (snd p) + 2) ps) + 3 < 255 \<Longrightarrow>
   \<exists>mt. mask_text ps m acc = Some mt \<and> length mt \<le> length acc + sum_list (map (\<lambda>p. length (snd p) + 2) ps)"
proof (induction ps arbitrary: acc)
  case Nil
  then show ?case by simp
next
  case (Cons p ps)
  show ?case
  proof (cases "m AND fst p \<noteq> 0")
    case False
    then show ?thesis using Cons.IH [of acc] Cons.prems by auto
  next
    case True
    let ?acc = "(if acc \<noteq> [] then acc @ '', '' else acc) @ snd p"
    have "length ?acc \<le> length acc + length (snd p) + 2" by simp
    then have "length ?acc + sum_list (map (\<lambda>p. length (snd p) + 2) ps) + 3 < 255"
      using Cons.prems by simp
    from Cons.IH [OF this] \<open>length ?acc \<le> length acc + length (snd p) + 2\<close>
    show ?thesis using True Cons.prems by auto
  qed
qed

lemma mask_text_total: "\<exists>mt. mask_text mask_texts m [] = Some mt"
proof -
  have "sum_list (map (\<lambda>p. length (snd p) + 2) mask_texts) = 129"
    by (simp add: mask_texts_def)
  then show ?thesis using mask_text_bound [of "[]" mask_texts m] by auto
qed

text \<open>
  C1. Take an event that \<open>handle_event\<close> does not drop (not ignored, its name not
  excluded, its descriptor found at slot \<open>i\<close>), whose mask has one of \<open>CREATE\<close>,
  \<open>CLOSE_WRITE\<close>, \<open>DELETE\<close>, \<open>MOVED_TO\<close>, \<open>MOVED_FROM\<close>, and for which
  \<open>buildpath\<close> gives the source path \<open>p\<close> and the destination path \<open>d\<close> of the
  directory, so that the non-recursive \<open>rsync\<close> of \<open>p\<close> to \<open>d\<close> runs; let
  \<open>ok\<close> be what it returns. If it returns \<open>true\<close>, or slot \<open>i\<close> has no parent,
  \<open>handle_event\<close> returns there and then: nothing follows the first rsync. Otherwise
  \<open>buildpath\<close> gives both paths of the parent, and all that follows the first rsync is
  one recursive \<open>rsync\<close> of these two paths: when it fails the process exits with code
  3, when it succeeds \<open>handle_event\<close> returns.
\<close>

theorem handle_event_escalation:
  assumes mt: "mask_text mask_texts (ev_mask ev) [] = Some mt"
    and ign: "IN_IGNORED AND ev_mask ev = 0"
    and exc: "ev_name ev \<notin> set (exclude_dirs cfg)"
    and off: "get_dirwatch_offset (ev_wd ev) s = i"
    and live: "i \<noteq> -1"
    and upd: "update_watches fuel cfg w ev i
                (emit (Printlogf LOG_DEBUG ''inotfy event: %s:%s''
                         [S (Some mt), S (Some (ev_name ev))]) s) = Some (Ret b s2)"
    and src: "buildpath fuel (PATH_MAX + 1) i None None s2 = Some (Ret (True, p) s2)"
    and dst: "buildpath fuel (PATH_MAX + 1) i None (Some (option_target cfg)) s2 = Some (Ret (True, d) s2)"
    and msk: "(IN_CREATE OR IN_CLOSE_WRITE OR IN_DELETE OR IN_MOVED_TO OR IN_MOVED_FROM)
                AND ev_mask ev \<noteq> 0"
    and first: "rsync cfg w p d False
                  (emit (Printlogf LOG_NORMAL ''%s of %s in %s --> %s''
                           [S (Some mt), S (Some (ev_name ev)), S (Some p), S (Some d)]) s2) = Ret ok s4"
  shows "if ok \<or> parent (dir_watches s2 ! nat i) = -1
         then handle_event fuel cfg w ev s = Some (Ret False s4)
         else \<exists>pp pd.
                buildpath fuel (PATH_MAX + 1) (parent (dir_watches s2 ! nat i)) None None s2
                  = Some (Ret (True, pp) s2)
              \<and> buildpath fuel (PATH_MAX + 1) (parent (dir_watches s2 ! nat i)) None
                    (Some (option_target cfg)) s2 = Some (Ret (True, pd) s2)
              \<and> handle_event fuel cfg w ev s =
                  bind_outcome
                    (Some (rsync cfg w pp pd True
                             (emit (Printlogf LOG_NORMAL ''Retry Directory resync with %s to %s''
                                      [S (Some pp), S (Some pd)]) s4)))
                    (\<lambda>ok' s8.
                       if \<not> ok' then
                         Some (Exit LSYNCD_EXECRSYNCFAIL
                                 (emit (Printlogf LOG_ERROR ''Retry of rsync from %s to %s failed''
                                          [S (Some pp), S (Some pd)]) s8))
                       else Some (Ret False s8))"
proof -
  let ?par = "parent (dir_watches s2 ! nat i)"
  have he: "handle_event fuel cfg w ev s = sync_dir fuel cfg w ev mt i s2"
    using mt ign exc off live upd by (simp add: handle_event_def Let_def)
  have t4: "dir_watches s4 = dir_watches s2"
    using rsync_table [of cfg w p d False
        "emit (Printlogf LOG_NORMAL ''%s of %s in %s --> %s''
                 [S (Some mt), S (Some (ev_name ev)), S (Some p), S (Some d)]) s2"] first
    by simp
  show ?thesis
  proof (cases "ok \<or> ?par = -1")
    case True
    then have "sync_dir fuel cfg w ev mt i s2 = Some (Ret False s4)"
      using src dst msk first t4 by (auto simp: sync_dir_def Let_def)
    with he True show ?thesis by simp
  next
    case False
    from buildpath_parent [OF src live] obtain pp
      where pp: "buildpath fuel (PATH_MAX + 1) ?par None None s2 = Some (Ret (True, pp) s2)" by blast
    from buildpath_parent [OF dst live] obtain pd
      where pd: "buildpath fuel (PATH_MAX + 1) ?par None (Some (option_target cfg)) s2
                   = Some (Ret (True, pd) s2)" by blast
    have pp4: "buildpath fuel (PATH_MAX + 1) ?par None None s4 = Some (Ret (True, pp) s4)"
      by (rule buildpath_table [OF pp t4])
    have pd4: "buildpath fuel (PATH_MAX + 1) ?par None (Some (option_target cfg)) s4
                 = Some (Ret (True, pd) s4)"
      by (rule buildpath_table [OF pd t4])
    have "sync_dir fuel cfg w ev mt i s2 =
            bind_outcome
              (Some (rsync cfg w pp pd True
                       (emit (Printlogf LOG_NORMAL ''Retry Directory resync with %s to %s''
                                [S (Some pp), S (Some pd)]) s4)))
              (\<lambda>ok' s8.
                 if \<not> ok' then
                   Some (Exit LSYNCD_EXECRSYNCFAIL
                           (emit (Printlogf LOG_ERROR ''Retry of rsync from %s to %s failed''
                                    [S (Some pp), S (Some pd)]) s8))
                 else Some (Ret False s8))"
      using src dst msk first t4 False pp4 pd4
      by (simp add: sync_dir_def Let_def cong: if_cong)
    with he pp pd False show ?thesis by auto
  qed
qed

text \<open>
  With every child exiting with status 3: the event in \<open>b\<close> spawns the non-recursive
  rsync of \<open>b\<close> and the recursive rsync of the source directory and ends the process
  with code 3; the event in the source directory itself, which has no parent, spawns one
  rsync and returns.
\<close>

theorem handle_event_escalation_witness:
  "map_option (\<lambda>r. (exit_code r, execs (final r)))
     (handle_event 5 cfg_demo (world_demo 3) ev_write s_two) =
   Some (Some 3,
         [Fork_execv ''/usr/bin/rsync''
            [Some ''/usr/bin/rsync'', Some ''--delete'', Some ''-ltd'', Some ''/src//b/'',
             Some ''host::module//b/'', None],
          Fork_execv ''/usr/bin/rsync''
            [Some ''/usr/bin/rsync'', Some ''--delete'', Some ''-ltr'', Some ''/src//'',
             Some ''host::module//'', None]])
   \<and> map_option (\<lambda>r. (returned r, execs (final r)))
     (handle_event 5 cfg_demo (world_demo 3) ev_root s_two) =
   Some (Some False,
         [Fork_execv ''/usr/bin/rsync''
            [Some ''/usr/bin/rsync'', Some ''--delete'', Some ''-ltd'', Some ''/src//'',
             Some ''host::module//'', None]])"
proof -
  have mt: "mask_text mask_texts (ev_mask ev_write) [] = Some ''CLOSE_WRITE''" by code_simp
  have ign: "IN_IGNORED AND ev_mask ev_write = 0" by code_simp
  have exc: "ev_name ev_write \<notin> set (exclude_dirs cfg_demo)" by code_simp
  have off: "get_dirwatch_offset (ev_wd ev_write) s_two = 2" by code_simp
  have live: "(2::int) \<noteq> -1" by simp
  have upd: "update_watches 5 cfg_demo (world_demo 3) ev_write 2
                (emit (Printlogf LOG_DEBUG ''inotfy event: %s:%s''
                         [S (Some ''CLOSE_WRITE''), S (Some (ev_name ev_write))]) s_two)
              = Some (Ret True s_write)" by code_simp
  have src: "buildpath 5 (PATH_MAX + 1) 2 None None s_write = Some (Ret (True, ''/src//b/'') s_write)"
    by code_simp
  have dst: "buildpath 5 (PATH_MAX + 1) 2 None (Some (option_target cfg_demo)) s_write
               = Some (Ret (True, ''host::module//b/'') s_write)"
    by code_simp
  have msk: "(IN_CREATE OR IN_CLOSE_WRITE OR IN_DELETE OR IN_MOVED_TO OR IN_MOVED_FROM)
                AND ev_mask ev_write \<noteq> 0" by code_simp
  have first: "rsync cfg_demo (world_demo 3) ''/src//b/'' ''host::module//b/'' False
                 (emit (Printlogf LOG_NORMAL ''%s of %s in %s --> %s''
                          [S (Some ''CLOSE_WRITE''), S (Some (ev_name ev_write)), S (Some ''/src//b/''),
                           S (Some ''host::module//b/'')]) s_write) = Ret False s_write_synced"
    by code_simp
  have par: "\<not> (False \<or> parent (dir_watches s_write ! nat 2) = -1)" by code_simp
  from handle_event_escalation [OF mt ign exc off live upd src dst msk first] par
  obtain pp pd where
    pp: "buildpath 5 (PATH_MAX + 1) (parent (dir_watches s_write ! nat 2)) None None s_write
           = Some (Ret (True, pp) s_write)"
    and pd: "buildpath 5 (PATH_MAX + 1) (parent (dir_watches s_write ! nat 2)) None
               (Some (option_target cfg_demo)) s_write = Some (Ret (True, pd) s_write)"
    and he: "handle_event 5 cfg_demo (world_demo 3) ev_write s_two =
               bind_outcome
                 (Some (rsync cfg_demo (world_demo 3) pp pd True
                          (emit (Printlogf LOG_NORMAL ''Retry Directory resync with %s to %s''
                                   [S (Some pp), S (Some pd)]) s_write_synced)))
                 (\<lambda>ok' s8.
                    if \<not> ok' then
                      Some (Exit LSYNCD_EXECRSYNCFAIL
                              (emit (Printlogf LOG_ERROR ''Retry of rsync from %s to %s failed''
                                       [S (Some pp), S (Some pd)]) s8))
                    else Some (Ret False s8))"
    by (simp only: if_False) blast
  have "buildpath 5 (PATH_MAX + 1) (parent (dir_watches s_write ! nat 2)) None None s_write
           = Some (Ret (True, ''/src//'') s_write)" by code_simp
  with pp have pp': "pp = ''/src//''" by simp
  have "buildpath 5 (PATH_MAX + 1) (parent (dir_watches s_write ! nat 2)) None
               (Some (option_target cfg_demo)) s_write = Some (Ret (True, ''host::module//'') s_write)"
    by code_simp
  with pd have pd': "pd = ''host::module//''" by simp
  have a: "map_option (\<lambda>r. (exit_code r, execs (final r)))
     (handle_event 5 cfg_demo (world_demo 3) ev_write s_two) =
   Some (Some 3,
         [Fork_execv ''/usr/bin/rsync''
            [Some ''/usr/bin/rsync'', Some ''--delete'', Some ''-ltd'', Some ''/src//b/'',
             Some ''host::module//b/'', None],
          Fork_execv ''/usr/bin/rsync''
            [Some ''/usr/bin/rsync'', Some ''--delete'', Some ''-ltr'', Some ''/src//'',
             Some ''host::module//'', None]])"
    unfolding he pp' pd' by code_simp
  have mt': "mask_text mask_texts (ev_mask ev_root) [] = Some ''CLOSE_WRITE''" by code_simp
  have ign': "IN_IGNORED AND ev_mask ev_root = 0" by code_simp
  have exc': "ev_name ev_root \<notin> set (exclude_dirs cfg_demo)" by code_simp
  have off': "get_dirwatch_offset (ev_wd ev_root) s_two = 0" by code_simp
  have live': "(0::int) \<noteq> -1" by simp
  have upd': "update_watches 5 cfg_demo (world_demo 3) ev_root 0
                (emit (Printlogf LOG_DEBUG ''inotfy event: %s:%s''
                         [S (Some ''CLOSE_WRITE''), S (Some (ev_name ev_root))]) s_two)
              = Some (Ret True s_write)" by code_simp
  have src': "buildpath 5 (PATH_MAX + 1) 0 None None s_write = Some (Ret (True, ''/src//'') s_write)"
    by code_simp
  have dst': "buildpath 5 (PATH_MAX + 1) 0 None (Some (option_target cfg_demo)) s_write
               = Some (Ret (True, ''host::module//'') s_write)"
    by code_simp
  have msk': "(IN_CREATE OR IN_CLOSE_WRITE OR IN_DELETE OR IN_MOVED_TO OR IN_MOVED_FROM)
                AND ev_mask ev_root \<noteq> 0" by code_simp
  have first': "rsync cfg_demo (world_demo 3) ''/src//'' ''host::module//'' False
                 (emit (Printlogf LOG_NORMAL ''%s of %s in %s --> %s''
                          [S (Some ''CLOSE_WRITE''), S (Some (ev_name ev_root)), S (Some ''/src//''),
                           S (Some ''host::module//'')]) s_write) = Ret False s_root_synced"
    by code_simp
  have par': "False \<or> parent (dir_watches s_write ! nat 0) = -1" by code_simp
  from handle_event_escalation [OF mt' ign' exc' off' live' upd' src' dst' msk' first'] par'
  have he': "handle_event 5 cfg_demo (world_demo 3) ev_root s_two = Some (Ret False s_root_synced)"
    by (simp only: if_True)
  have b: "map_option (\<lambda>r. (returned r, execs (final r)))
     (handle_event 5 cfg_demo (world_demo 3) ev_root s_two) =
   Some (Some False,
         [Fork_execv ''/usr/bin/rsync''
            [Some ''/usr/bin/rsync'', Some ''--delete'', Some ''-ltd'', Some ''/src//'',
             Some ''host::module//'', None]])"
    unfolding he' by code_simp
  from a b show ?thesis by blast
qed

section \<open>Removal of a subtree by remove_dirwatch\<close>

lemma removed_fields [simp]:
  "length (dir_watches (removed order s)) = length (dir_watches s)"
  "dir_watch_size (removed order s) = dir_watch_size s"
  "keep_going (removed order s) = keep_going s"
  "dir_watch_num (removed order s) = dir_watch_num s"
  by (simp_all add: removed_def dir_watch_num_def)

lemma removed_nth:
  "c < length (dir_watches s) \<Longrightarrow>
   dir_watches (removed order s) ! c =
     (if c \<in> set order then released (dir_watches s ! c) else dir_watches s ! c)"
  by (simp add: removed_def)

lemma removed_wd:
  "c < length (dir_watches s) \<Longrightarrow>
   wd (dir_watches (removed order s) ! c) \<ge> 0 \<longleftrightarrow> wd (dir_watches s ! c) \<ge> 0 \<and> c \<notin> set order"
  by (simp add: removed_nth released_def)

lemma removed_parent:
  "c < length (dir_watches s) \<Longrightarrow>
   parent (dir_watches (removed order s) ! c) = parent (dir_watches s ! c)"
  by (simp add: removed_nth released_def)

lemma removed_Nil: "removed [] s = s"
  by (simp add: removed_def map_nth)

lemma release_slot_removed:
  assumes "dw < length (dir_watches s)"
  shows "release_slot dw s = removed [dw] s"
proof -
  have "(dir_watches s)[dw := released (dir_watches s ! dw)] =
        map (\<lambda>c. if c \<in> set [dw] then released (dir_watches s ! c) else dir_watches s ! c)
          [0 ..< length (dir_watches s)]"
    using assms by (intro nth_equalityI) (simp_all add: nth_list_update)
  then show ?thesis
    by (simp add: release_slot_def removed_def Let_def emit_def released_def)
qed

lemma removed_append:
  assumes disj: "set o1 \<inter> set o2 = {}"
    and rng: "\<forall>c \<in> set o2. c < length (dir_watches s)"
  shows "removed o2 (removed o1 s) = removed (o1 @ o2) s"
proof -
  have tab: "map (\<lambda>c. if c \<in> set o2 then released (dir_watches (removed o1 s) ! c)
                      else dir_watches (removed o1 s) ! c) [0 ..< length (dir_watches s)] =
             map (\<lambda>c. if c \<in> set (o1 @ o2) then released (dir_watches s ! c) else dir_watches s ! c)
               [0 ..< length (dir_watches s)]"
    using disj by (intro map_cong refl) (auto simp: removed_nth released_def)
  have eff: "map (\<lambda>c. Inotify_rm_watch (wd (dir_watches (removed o1 s) ! c))) o2 =
             map (\<lambda>c. Inotify_rm_watch (wd (dir_watches s ! c))) o2"
    using disj rng by (intro map_cong refl) (auto simp: removed_nth)
  have e1: "effects (removed o1 s) = effects s @ map (\<lambda>c. Inotify_rm_watch (wd (dir_watches s ! c))) o1"
    by (simp add: removed_def)
  show ?thesis
    unfolding removed_def [of o2] removed_fields tab eff e1
    by (simp add: removed_def)
qed

lemma before_append_left: "p \<in> set xs \<Longrightarrow> before xs c p \<Longrightarrow> before (xs @ ys) c p"
  by (simp add: before_def takeWhile_append1)

lemma takeWhile_absent:
  "p \<notin> set xs \<Longrightarrow> takeWhile (\<lambda>x. x \<noteq> p) (xs @ ys) = xs @ takeWhile (\<lambda>x. x \<noteq> p) ys"
  by (rule takeWhile_append2) auto

lemma before_append_right: "p \<notin> set xs \<Longrightarrow> before ys c p \<Longrightarrow> before (xs @ ys) c p"
  by (simp add: before_def takeWhile_absent)

lemma before_append_cross: "p \<notin> set xs \<Longrightarrow> c \<in> set xs \<Longrightarrow> before (xs @ ys) c p"
  by (simp add: before_def takeWhile_absent)

lemma ranked_removed:
  "ranked rank R (dir_watches s) \<Longrightarrow> ranked rank R (dir_watches (removed order s))"
  unfolding ranked_def by (simp add: removed_wd removed_parent)

lemma subtree_less: "c \<in> subtree ws dw \<Longrightarrow> dw < length ws \<Longrightarrow> c < length ws"
  by (induction rule: subtree.induct) simp_all

lemma subtree_trans: "c \<in> subtree ws i \<Longrightarrow> i \<in> subtree ws dw \<Longrightarrow> c \<in> subtree ws dw"
  by (induction rule: subtree.induct) (auto intro: subtree.child)

lemma subtree_removed:
  "c \<in> subtree (dir_watches (removed order s)) dw \<Longrightarrow> c \<in> subtree (dir_watches s) dw"
proof (induction rule: subtree.induct)
  case root
  show ?case by (rule subtree.root)
next
  case (child p c)
  then have c: "c < length (dir_watches s)" by simp
  from child c show ?case
    by (auto simp: removed_wd removed_parent intro: subtree.child)
qed

lemma loop_order_Nil: "loop_order rank ws dw [] []"
  by (simp add: loop_order_def post_order_def)

lemma set_butlast_last: "xs \<noteq> [] \<Longrightarrow> set xs = insert (last xs) (set (butlast xs))"
  by (cases xs rule: rev_cases) auto

lemma loop_order_skip:
  assumes l: "loop_order rank ws dw js order"
    and n: "\<not> (wd (ws ! i) \<ge> 0 \<and> parent (ws ! i) = int dw)"
  shows "loop_order rank ws dw (i # js) order"
proof -
  have "\<forall>j \<in> set (i # js). j < length ws \<and> wd (ws ! j) \<ge> 0 \<and> parent (ws ! j) = int dw
          \<longrightarrow> j \<in> set order"
  proof (intro ballI impI)
    fix j assume j: "j \<in> set (i # js)"
      and c: "j < length ws \<and> wd (ws ! j) \<ge> 0 \<and> parent (ws ! j) = int dw"
    from c n have "j \<noteq> i" by blast
    with j have "j \<in> set js" by simp
    with l c show "j \<in> set order" unfolding loop_order_def by blast
  qed
  with l show ?thesis unfolding loop_order_def by blast
qed

lemma loop_orderD:
  assumes "loop_order rank ws dw js order"
  shows "distinct order"
    and "\<And>c. c \<in> set order \<Longrightarrow> c < length ws"
    and "\<And>c. c \<in> set order \<Longrightarrow> wd (ws ! c) \<ge> 0"
    and "\<And>c. c \<in> set order \<Longrightarrow> rank dw < rank c"
    and "\<And>c. c \<in> set order \<Longrightarrow> c \<in> subtree ws dw"
    and "post_order ws order"
    and "\<And>j. j \<in> set js \<Longrightarrow> j < length ws \<Longrightarrow> wd (ws ! j) \<ge> 0 \<Longrightarrow> parent (ws ! j) = int dw
           \<Longrightarrow> j \<in> set order"
  using assms unfolding loop_order_def by blast+

lemma tree_orderD:
  assumes "tree_order rank ws dw order"
  shows "distinct order"
    and "order \<noteq> []"
    and "last order = dw"
    and "\<And>c. c \<in> set (butlast order) \<Longrightarrow> c < length ws"
    and "\<And>c. c \<in> set (butlast order) \<Longrightarrow> wd (ws ! c) \<ge> 0"
    and "\<And>c. c \<in> set (butlast order) \<Longrightarrow> rank dw < rank c"
    and "\<And>c. c \<in> set order \<Longrightarrow> c \<in> subtree ws dw"
    and "post_order ws order"
  using assms unfolding tree_order_def by blast+

lemma post_orderD:
  assumes "post_order ws order" "p \<in> set order" "c < length ws" "wd (ws ! c) \<ge> 0"
    "parent (ws ! c) = int p"
  shows "c \<in> set order" and "before order c p"
  using assms unfolding post_order_def by blast+

lemma post_orderI:
  assumes "\<And>p c. p \<in> set order \<Longrightarrow> c < length ws \<Longrightarrow> wd (ws ! c) \<ge> 0 \<Longrightarrow>
             parent (ws ! c) = int p \<Longrightarrow> c \<in> set order \<and> before order c p"
  shows "post_order ws order"
  using assms unfolding post_order_def by blast

lemma rankedD:
  assumes "ranked rank R ws" "c < length ws"
  shows "rank c \<le> R"
    and "\<And>p. wd (ws ! c) \<ge> 0 \<Longrightarrow> parent (ws ! c) = int p \<Longrightarrow> rank p < rank c"
  using assms unfolding ranked_def by blast+

lemma loop_orderI:
  assumes "distinct order"
    and "\<And>c. c \<in> set order \<Longrightarrow> c < length ws \<and> wd (ws ! c) \<ge> 0 \<and> rank dw < rank c"
    and "\<And>c. c \<in> set order \<Longrightarrow> c \<in> subtree ws dw"
    and "post_order ws order"
    and "\<And>j. j \<in> set js \<Longrightarrow> j < length ws \<Longrightarrow> wd (ws ! j) \<ge> 0 \<Longrightarrow> parent (ws ! j) = int dw
           \<Longrightarrow> j \<in> set order"
  shows "loop_order rank ws dw js order"
  using assms unfolding loop_order_def by blast

lemma tree_orderI:
  assumes "distinct order" "order \<noteq> []" "last order = dw"
    and "\<And>c. c \<in> set (butlast order) \<Longrightarrow> c < length ws \<and> wd (ws ! c) \<ge> 0 \<and> rank dw < rank c"
    and "\<And>c. c \<in> set order \<Longrightarrow> c \<in> subtree ws dw"
    and "post_order ws order"
  shows "tree_order rank ws dw order"
  using assms unfolding tree_order_def by blast

lemma loop_order_step:
  assumes rk: "ranked rank R (dir_watches s)"
    and i: "i < length (dir_watches s)" "wd (dir_watches s ! i) \<ge> 0"
      "parent (dir_watches s ! i) = int dw"
    and t: "tree_order rank (dir_watches s) i o1"
    and l: "loop_order rank (dir_watches (removed o1 s)) dw js o2"
  shows "loop_order rank (dir_watches s) dw (i # js) (o1 @ o2)"
    and "set o1 \<inter> set o2 = {}"
    and "\<forall>c \<in> set o2. c < length (dir_watches s)"
proof -
  let ?ws = "dir_watches s"
  let ?ws1 = "dir_watches (removed o1 s)"
  note T = tree_orderD [OF t]
  note L = loop_orderD [OF l]
  have ri: "rank dw < rank i" by (rule rankedD(2) [OF rk i])
  have o1set: "set o1 = insert i (set (butlast o1))"
    using set_butlast_last [OF T(2)] T(3) by simp
  have o1: "c < length ?ws \<and> wd (?ws ! c) \<ge> 0 \<and> rank dw < rank c" if "c \<in> set o1" for c
  proof (cases "c = i")
    case True
    then show ?thesis using i ri by simp
  next
    case False
    then have b: "c \<in> set (butlast o1)" using that o1set by blast
    from T(4) [OF b] T(5) [OF b] T(6) [OF b] ri show ?thesis by simp
  qed
  have o2len: "c < length ?ws" if "c \<in> set o2" for c
    using L(2) [OF that] by simp
  have o2live: "wd (?ws ! c) \<ge> 0 \<and> c \<notin> set o1" if "c \<in> set o2" for c
    using L(3) [OF that] removed_wd [OF o2len [OF that], of o1] by blast
  show disj: "set o1 \<inter> set o2 = {}" using o2live by blast
  show "\<forall>c \<in> set o2. c < length ?ws" using o2len by blast
  have d: "distinct (o1 @ o2)" using T(1) L(1) disj by simp
  have isub: "i \<in> subtree ?ws dw"
    by (rule subtree.child [OF subtree.root i])
  have sub: "c \<in> subtree ?ws dw" if "c \<in> set (o1 @ o2)" for c
  proof (cases "c \<in> set o1")
    case True
    from subtree_trans [OF T(7) [OF True] isub] show ?thesis .
  next
    case False
    then have "c \<in> set o2" using that by simp
    from subtree_removed [OF L(5) [OF this]] show ?thesis .
  qed
  have po: "post_order ?ws (o1 @ o2)"
  proof (rule post_orderI)
    fix p c
    assume p: "p \<in> set (o1 @ o2)" and c: "c < length ?ws"
      and cw: "wd (?ws ! c) \<ge> 0" and cp: "parent (?ws ! c) = int p"
    show "c \<in> set (o1 @ o2) \<and> before (o1 @ o2) c p"
    proof (cases "p \<in> set o1")
      case True
      from post_orderD [OF T(8) True c cw cp]
      have "c \<in> set o1" and "before o1 c p" .
      then show ?thesis using before_append_left [OF True] by simp
    next
      case False
      then have p2: "p \<in> set o2" using p by simp
      show ?thesis
      proof (cases "c \<in> set o1")
        case True
        then show ?thesis using before_append_cross [OF False True] by simp
      next
        case cn: False
        have w1: "wd (?ws1 ! c) \<ge> 0" using removed_wd [OF c, of o1] cw cn by blast
        have p1: "parent (?ws1 ! c) = int p" using removed_parent [OF c, of o1] cp by simp
        have c1: "c < length ?ws1" using c by simp
        from post_orderD [OF L(6) p2 c1 w1 p1]
        have "c \<in> set o2" and "before o2 c p" .
        then show ?thesis using before_append_right [OF False] by simp
      qed
    qed
  qed
  have ch: "j \<in> set (o1 @ o2)"
    if j: "j \<in> set (i # js)" and jl: "j < length ?ws" and jw: "wd (?ws ! j) \<ge> 0"
      and jp: "parent (?ws ! j) = int dw" for j
  proof (cases "j \<in> set o1")
    case True
    then show ?thesis by simp
  next
    case False
    then have "j \<noteq> i" using o1set by blast
    then have js: "j \<in> set js" using j by simp
    have w1: "wd (?ws1 ! j) \<ge> 0" using removed_wd [OF jl, of o1] jw False by blast
    have p1: "parent (?ws1 ! j) = int dw" using removed_parent [OF jl, of o1] jp by simp
    have j1: "j < length ?ws1" using jl by simp
    from L(7) [OF js j1 w1 p1] show ?thesis by simp
  qed
  have all: "c < length ?ws \<and> wd (?ws ! c) \<ge> 0 \<and> rank dw < rank c" if "c \<in> set (o1 @ o2)" for c
  proof (cases "c \<in> set o1")
    case True
    then show ?thesis by (rule o1)
  next
    case False
    then have c2: "c \<in> set o2" using that by simp
    from o2len [OF c2] o2live [OF c2] L(4) [OF c2] show ?thesis by blast
  qed
  show "loop_order rank ?ws dw (i # js) (o1 @ o2)"
    by (rule loop_orderI [OF d all sub po ch])
qed

lemma tree_order_final:
  assumes dw: "dw < length ws"
    and l: "loop_order rank ws dw [0 ..< length ws] order"
  shows "tree_order rank ws dw (order @ [dw])" and "dw \<notin> set order"
proof -
  note L = loop_orderD [OF l]
  show nin: "dw \<notin> set order" using L(4) by blast
  have po: "post_order ws (order @ [dw])"
  proof (rule post_orderI)
    fix p c
    assume p: "p \<in> set (order @ [dw])" and c: "c < length ws"
      and cw: "wd (ws ! c) \<ge> 0" and cp: "parent (ws ! c) = int p"
    show "c \<in> set (order @ [dw]) \<and> before (order @ [dw]) c p"
    proof (cases "p \<in> set order")
      case True
      from post_orderD [OF L(6) True c cw cp]
      have "c \<in> set order" and "before order c p" .
      then show ?thesis using before_append_left [OF True] by simp
    next
      case False
      then have pd: "p = dw" using p by simp
      have "c \<in> set [0 ..< length ws]" using c by simp
      from L(7) [OF this c cw] cp pd have "c \<in> set order" by simp
      then show ?thesis using before_append_cross [OF False] by simp
    qed
  qed
  have sub: "c \<in> subtree ws dw" if "c \<in> set (order @ [dw])" for c
    using that L(5) subtree.root [of dw ws] by auto
  have bl: "c < length ws \<and> wd (ws ! c) \<ge> 0 \<and> rank dw < rank c" if "c \<in> set (butlast (order @ [dw]))" for c
    using that L(2) L(3) L(4) by simp
  show "tree_order rank ws dw (order @ [dw])"
  proof (rule tree_orderI [OF _ _ _ bl sub po])
    show "distinct (order @ [dw])" using L(1) nin by simp
    show "order @ [dw] \<noteq> []" by simp
    show "last (order @ [dw]) = dw" by simp
  qed
qed

lemma remove_children_spec:
  assumes H: "\<And>i s. ranked rank R (dir_watches s) \<Longrightarrow> i < length (dir_watches s) \<Longrightarrow> R < f + rank i \<Longrightarrow>
     \<exists>order. remove_dirwatch f None (int i) s = Some (Ret True (removed order s))
             \<and> tree_order rank (dir_watches s) i order"
  shows "ranked rank R (dir_watches s) \<Longrightarrow> R < Suc f + rank dw \<Longrightarrow>
     set js \<subseteq> {..< length (dir_watches s)} \<Longrightarrow>
     \<exists>order. remove_children f js (int dw) s = Some (Ret () (removed order s))
             \<and> loop_order rank (dir_watches s) dw js order"
proof (induction js arbitrary: s)
  case Nil
  have "remove_children f [] (int dw) s = Some (Ret () (removed [] s))"
    by (simp add: removed_Nil)
  then show ?case using loop_order_Nil by blast
next
  case (Cons i js)
  let ?ws = "dir_watches s"
  have il: "i < length ?ws" and jsl: "set js \<subseteq> {..< length ?ws}"
    using Cons.prems(3) by simp_all
  show ?case
  proof (cases "wd (?ws ! i) \<ge> 0 \<and> parent (?ws ! i) = int dw")
    case False
    from Cons.IH [OF Cons.prems(1,2) jsl] obtain order
      where r: "remove_children f js (int dw) s = Some (Ret () (removed order s))"
        and l: "loop_order rank ?ws dw js order" by blast
    have "remove_children f (i # js) (int dw) s = Some (Ret () (removed order s))"
      using False r by auto
    moreover have "loop_order rank ?ws dw (i # js) order"
      by (rule loop_order_skip [OF l False])
    ultimately show ?thesis by blast
  next
    case True
    then have iw: "wd (?ws ! i) \<ge> 0" and ip: "parent (?ws ! i) = int dw" by simp_all
    have ri: "rank dw < rank i" by (rule rankedD(2) [OF Cons.prems(1) il iw ip])
    then have fi: "R < f + rank i" using Cons.prems(2) by simp
    from H [OF Cons.prems(1) il fi] obtain o1
      where r1: "remove_dirwatch f None (int i) s = Some (Ret True (removed o1 s))"
        and t1: "tree_order rank ?ws i o1" by blast
    let ?s1 = "removed o1 s"
    have rk1: "ranked rank R (dir_watches ?s1)" by (rule ranked_removed [OF Cons.prems(1)])
    have jsl1: "set js \<subseteq> {..< length (dir_watches ?s1)}" using jsl by simp
    from Cons.IH [OF rk1 Cons.prems(2) jsl1] obtain o2
      where r2: "remove_children f js (int dw) ?s1 = Some (Ret () (removed o2 ?s1))"
        and l2: "loop_order rank (dir_watches ?s1) dw js o2" by blast
    note S = loop_order_step [OF Cons.prems(1) il iw ip t1 l2]
    have "removed o2 ?s1 = removed (o1 @ o2) s"
      by (rule removed_append [OF S(2) S(3)])
    then have "remove_children f (i # js) (int dw) s = Some (Ret () (removed (o1 @ o2) s))"
      using True r1 r2 by simp
    with S(1) show ?thesis by blast
  qed
qed

lemma remove_dirwatch_spec:
  "ranked rank R (dir_watches s) \<Longrightarrow> dw < length (dir_watches s) \<Longrightarrow> R < fuel + rank dw \<Longrightarrow>
   \<exists>order. remove_dirwatch fuel None (int dw) s = Some (Ret True (removed order s))
           \<and> tree_order rank (dir_watches s) dw order"
proof (induction fuel arbitrary: s dw)
  case 0
  from rankedD(1) [OF 0(1) 0(2)] 0(3) show ?case by simp
next
  case (Suc f)
  let ?ws = "dir_watches s"
  have all: "set [0 ..< length ?ws] \<subseteq> {..< length ?ws}" by auto
  from remove_children_spec [of rank R f, OF Suc.IH Suc.prems(1) Suc.prems(3) all]
  obtain order where r: "remove_children f [0 ..< length ?ws] (int dw) s = Some (Ret () (removed order s))"
    and l: "loop_order rank ?ws dw [0 ..< length ?ws] order" by blast
  note T = tree_order_final [OF Suc.prems(2) l]
  have rng: "\<forall>c \<in> set [dw]. c < length ?ws" using Suc.prems(2) by simp
  have disj: "set order \<inter> set [dw] = {}" using T(2) by simp
  have "release_slot dw (removed order s) = removed [dw] (removed order s)"
    using Suc.prems(2) by (intro release_slot_removed) simp
  also have "\<dots> = removed (order @ [dw]) s" by (rule removed_append [OF disj rng])
  finally have rel: "release_slot dw (removed order s) = removed (order @ [dw]) s" .
  have "remove_dirwatch (Suc f) None (int dw) s = Some (Ret True (removed (order @ [dw]) s))"
    using r rel Suc.prems(2) by (simp add: dir_watch_num_def)
  with T(1) show ?case by blast
qed

lemma remove_children_none:
  "\<forall>i \<in> set js. \<not> (wd (dir_watches s ! i) \<ge> 0 \<and> parent (dir_watches s ! i) = dw) \<Longrightarrow>
   remove_children f js dw s = Some (Ret () s)"
  by (induction js) auto

lemma released_released: "released (released x) = released x"
  by (simp add: released_def)

lemma subtree_in_order:
  assumes po: "post_order ws order" and dw: "dw \<in> set order"
  shows "c \<in> subtree ws dw \<Longrightarrow> c \<in> set order"
proof (induction rule: subtree.induct)
  case root
  show ?case by (rule dw)
next
  case (child p c)
  from post_orderD(1) [OF po child(5) child(2) child(3) child(4)] show ?case .
qed

lemma remove_again:
  assumes dw: "dw < length (dir_watches s)"
    and po: "post_order (dir_watches s) order" and mem: "dw \<in> set order"
  shows "\<exists>s''. remove_dirwatch (Suc n) None (int dw) (removed order s) = Some (Ret True s'')
           \<and> dir_watches s'' = dir_watches (removed order s)
           \<and> effects s'' = effects (removed order s) @ [Inotify_rm_watch (-1)]"
proof -
  let ?s1 = "removed order s"
  have none: "\<forall>i \<in> set [0 ..< length (dir_watches ?s1)].
      \<not> (wd (dir_watches ?s1 ! i) \<ge> 0 \<and> parent (dir_watches ?s1 ! i) = int dw)"
  proof (intro ballI notI)
    fix i assume i: "i \<in> set [0 ..< length (dir_watches ?s1)]"
      and c: "wd (dir_watches ?s1 ! i) \<ge> 0 \<and> parent (dir_watches ?s1 ! i) = int dw"
    have il: "i < length (dir_watches s)" using i by simp
    from c removed_wd [OF il, of order] removed_parent [OF il, of order]
    have w: "wd (dir_watches s ! i) \<ge> 0" and n: "i \<notin> set order"
      and p: "parent (dir_watches s ! i) = int dw" by simp_all
    from post_orderD(1) [OF po mem il w p] n show False by blast
  qed
  have ch: "remove_children n [0 ..< length (dir_watches ?s1)] (int dw) ?s1 = Some (Ret () ?s1)"
    by (rule remove_children_none [OF none])
  have r: "remove_dirwatch (Suc n) None (int dw) ?s1 = Some (Ret True (release_slot dw ?s1))"
    using ch dw by (simp add: dir_watch_num_def)
  have tab: "dir_watches (release_slot dw ?s1) = dir_watches ?s1"
  proof -
    have d1: "dw < length (dir_watches ?s1)" using dw by simp
    have "dir_watches ?s1 ! dw = released (dir_watches s ! dw)"
      using removed_nth [OF dw, of order] mem by simp
    then have "released (dir_watches ?s1 ! dw) = dir_watches ?s1 ! dw"
      by (simp add: released_released)
    then have "(dir_watches ?s1)[dw := released (dir_watches ?s1 ! dw)] = dir_watches ?s1"
      by (simp add: list_update_id)
    then show ?thesis
      by (simp add: release_slot_def Let_def emit_def released_def)
  qed
  have "dir_watches ?s1 ! dw = released (dir_watches s ! dw)"
    using removed_nth [OF dw, of order] mem by simp
  then have "wd (dir_watches ?s1 ! dw) = -1" by (simp add: released_def)
  then have eff: "effects (release_slot dw ?s1) = effects ?s1 @ [Inotify_rm_watch (-1)]"
    by (simp add: release_slot_def Let_def emit_def)
  from r tab eff show ?thesis by blast
qed

text \<open>
  C4. Let the parent links of the table be free of cycles (\<open>ranked\<close>) and \<open>dw\<close> a
  slot of the table. Then \<open>remove_dirwatch(NULL, dw)\<close> returns \<open>true\<close> (a recursion
  depth above the bound of the ranks is enough), and there is a list \<open>order\<close> of the
  slots it released such that: the state it leaves is \<open>removed order\<close> of the old one,
  that is, one \<^verbatim>\<open>inotify_rm_watch\<close> per slot of the list, in the order of the list,
  with the descriptor the slot held, and every slot of the list left with \<open>wd = -1\<close>
  and both names released, every other slot untouched; no slot is in the list twice; the
  list holds exactly \<open>dw\<close> and its live descendants; every slot is released after all
  used slots whose parent it is (post-order), \<open>dw\<close> last; and removing \<open>dw\<close> again
  returns \<open>true\<close> and leaves the table as it is (all it does is one more
  \<^verbatim>\<open>inotify_rm_watch\<close>, with the descriptor \<open>-1\<close> of the unused slot).
\<close>

theorem remove_dirwatch_subtree:
  assumes rk: "ranked rank R (dir_watches s)"
    and dw: "dw < length (dir_watches s)"
    and fuel: "R < fuel"
  shows "\<exists>order. remove_dirwatch fuel None (int dw) s = Some (Ret True (removed order s))
           \<and> distinct order \<and> last order = dw
           \<and> set order = subtree (dir_watches s) dw
           \<and> post_order (dir_watches s) order
           \<and> (\<forall>n. \<exists>s''. remove_dirwatch (Suc n) None (int dw) (removed order s) = Some (Ret True s'')
                     \<and> dir_watches s'' = dir_watches (removed order s)
                     \<and> effects s'' = effects (removed order s) @ [Inotify_rm_watch (-1)])"
proof -
  have f: "R < fuel + rank dw" using fuel by simp
  from remove_dirwatch_spec [OF rk dw f] obtain order
    where r: "remove_dirwatch fuel None (int dw) s = Some (Ret True (removed order s))"
      and t: "tree_order rank (dir_watches s) dw order" by blast
  note T = tree_orderD [OF t]
  have mem: "dw \<in> set order" using T(2) T(3) last_in_set by blast
  have sub: "set order = subtree (dir_watches s) dw"
    using T(7) subtree_in_order [OF T(8) mem] by blast
  have again: "\<forall>n. \<exists>s''. remove_dirwatch (Suc n) None (int dw) (removed order s) = Some (Ret True s'')
                     \<and> dir_watches s'' = dir_watches (removed order s)
                     \<and> effects s'' = effects (removed order s) @ [Inotify_rm_watch (-1)]"
    using remove_again [OF dw T(8) mem] by blast
  from r T(1) T(3) sub T(8) again show ?thesis by blast
qed

text \<open>
  In the table of \<open>s_tree\<close> (the source directory, \<open>a\<close> in it, \<open>b\<close> in \<open>a\<close>,
  \<open>c\<close> in \<open>b\<close>), removing \<open>a\<close> releases \<open>c\<close>, then \<open>b\<close>, then \<open>a\<close>.
\<close>

lemma remove_dirwatch_tree_example:
  "remove_dirwatch 4 None 1 s_tree = Some (Ret True (removed [3, 2, 1] s_tree))
   \<and> map wd (dir_watches (removed [3, 2, 1] s_tree)) = [1, -1, -1, -1]
   \<and> map dirname (dir_watches (removed [3, 2, 1] s_tree)) = [Some ''/src/'', None, None, None]
   \<and> drop 6 (effects (removed [3, 2, 1] s_tree)) =
       [Inotify_rm_watch 11, Inotify_rm_watch 9, Inotify_rm_watch 7]"
  by code_simp

theorem remove_dirwatch_subtree_witness:
  "(\<exists>order. remove_dirwatch 4 None 1 s_tree = Some (Ret True (removed order s_tree))
           \<and> distinct order \<and> last order = 1
           \<and> set order = subtree (dir_watches s_tree) 1
           \<and> post_order (dir_watches s_tree) order
           \<and> (\<forall>n. \<exists>s''. remove_dirwatch (Suc n) None 1 (removed order s_tree) = Some (Ret True s'')
                     \<and> dir_watches s'' = dir_watches (removed order s_tree)
                     \<and> effects s'' = effects (removed order s_tree) @ [Inotify_rm_watch (-1)]))
   \<and> remove_dirwatch 4 None 1 s_tree = Some (Ret True (removed [3, 2, 1] s_tree))
   \<and> map wd (dir_watches (removed [3, 2, 1] s_tree)) = [1, -1, -1, -1]
   \<and> map dirname (dir_watches (removed [3, 2, 1] s_tree)) = [Some ''/src/'', None, None, None]
   \<and> drop 6 (effects (removed [3, 2, 1] s_tree)) =
       [Inotify_rm_watch 11, Inotify_rm_watch 9, Inotify_rm_watch 7]"
proof -
  have rk: "ranked (\<lambda>i. i) 3 (dir_watches s_tree)"
    by (simp add: ranked_def s_tree_def All_less_Suc numeral_eq_Suc)
  have dw: "1 < length (dir_watches s_tree)" by (simp add: s_tree_def)
  have fu: "(3::nat) < 4" by simp
  from remove_dirwatch_subtree [OF rk dw fu]
  have "\<exists>order. remove_dirwatch 4 None 1 s_tree = Some (Ret True (removed order s_tree))
           \<and> distinct order \<and> last order = 1
           \<and> set order = subtree (dir_watches s_tree) 1
           \<and> post_order (dir_watches s_tree) order
           \<and> (\<forall>n. \<exists>s''. remove_dirwatch (Suc n) None 1 (removed order s_tree) = Some (Ret True s'')
                     \<and> dir_watches s'' = dir_watches (removed order s_tree)
                     \<and> effects s'' = effects (removed order s_tree) @ [Inotify_rm_watch (-1)])"
    by simp
  with remove_dirwatch_tree_example show ?thesis by blast
qed

end
